theory Spec2Isabelle
  imports Main "HOL-Library.Word" "HOL-Library.AList"
begin

section \<open>The worker of fdm: child.c\<close>

text \<open>
  A shallow embedding of the rule engine, the action dispatcher and the fetch loop of
  \<^verbatim>\<open>child.c\<close>. Every C function that a property below speaks about is a HOL
  function of the same name; a loop of the C is a recursive function named after the
  function that holds it. The structures of \<^verbatim>\<open>fdm.h\<close> are records and
  datatypes that carry the fields \<^verbatim>\<open>child.c\<close> reads or writes.
  A call of \<^verbatim>\<open>fatal\<close>/\<^verbatim>\<open>fatalx\<close> ends the process: it is the
  \<open>Inl\<close> branch of every result.
\<close>

subsection \<open>Data of fdm.h, as far as child.c uses it\<close>

datatype decision = DECISION_NONE | DECISION_DROP | DECISION_KEEP

type_synonym uid = nat

type_synonym strb = "(string \<times> string) list"

text \<open>
  \<^verbatim>\<open>struct mail\<close>: the bytes, \<^verbatim>\<open>size\<close> (a \<^verbatim>\<open>size_t\<close>),
  \<^verbatim>\<open>body\<close> (a \<^verbatim>\<open>ssize_t\<close>, \<open>-1\<close> for none), the decision, the tags
  and the offsets of the wrapped header lines.
\<close>

record mail =
  mail_data :: string
  mail_size :: nat
  mail_body :: int
  mail_decision :: decision
  mail_tags :: strb
  mail_wrapped :: "nat list"

record account =
  acct_name :: string
  acct_keep :: bool
  acct_find_uid :: bool
  acct_users :: "uid list option"

datatype deliver_type = DELIVER_INCHILD | DELIVER_ASUSER | DELIVER_WRBACK

datatype deliver_result = DELIVER_SUCCESS | DELIVER_FAILURE

text \<open>
  \<^verbatim>\<open>struct deliver\<close>: the kind and the function pointer \<^verbatim>\<open>deliver\<close>
  (\<open>None\<close> for \<^verbatim>\<open>NULL\<close>). The function gets the delivery context (account and
  mail) and may change the mail.
\<close>

record deliver =
  dlv_type :: deliver_type
  dlv_deliver :: "(account \<Rightarrow> mail \<Rightarrow> deliver_result \<times> mail) option"

record action =
  act_name :: string
  act_deliver :: deliver
  act_find_uid :: bool
  act_users :: "uid list option"

datatype msgtype = MSG_ACTION | MSG_DONE | MSG_EXIT

text \<open>\<^verbatim>\<open>struct msg\<close>: the kind and the inline fields of \<^verbatim>\<open>msg.data\<close>.\<close>

record msg =
  msg_type :: msgtype
  msg_account :: "account option"
  msg_action :: "action option"
  msg_uid :: uid
  msg_error :: int
  msg_mail :: mail

text \<open>
  The channel to the parent. \<open>io_sent\<close> records every message handed to
  \<^verbatim>\<open>privsep_send\<close> with its buffer; \<open>io_script\<close> is what the parent does at
  the coming exchanges: the send fails, the receive fails, or a message comes back, with
  its attached buffer (\<open>None\<close> when \<^verbatim>\<open>buf == NULL || len == 0\<close>).
\<close>

datatype exch = SendFails | RecvFails | Answer msg "strb option"

record io =
  io_sent :: "(msg \<times> strb) list"
  io_script :: "exch list"

record match_ctx =
  io :: io
  account :: account
  mail :: mail
  matched :: bool
  stopped :: bool

datatype match_result = MATCH_FALSE | MATCH_TRUE | MATCH_ERROR

datatype exprop = OP_NONE | OP_AND | OP_OR

text \<open>
  \<^verbatim>\<open>struct expritem\<close>: \<open>ei_match\<close> is the call
  \<^verbatim>\<open>ei->match->match(mctx, ei)\<close> of the item's primitive, which reads the
  context.
\<close>

record expritem =
  ei_match :: "match_ctx \<Rightarrow> match_result"
  ei_inverted :: bool
  ei_op :: exprop

subsection \<open>Rules\<close>

datatype rule_type = RULE_EXPRESSION | RULE_ALL

text \<open>
  \<^verbatim>\<open>struct replstr\<close> is its \<^verbatim>\<open>str\<close> pointer (\<open>None\<close> for
  \<^verbatim>\<open>NULL\<close>). \<^verbatim>\<open>struct rule\<close>: \<open>rule_accounts\<close> is the array
  \<^verbatim>\<open>r->accounts\<close>, empty when the pointer is \<^verbatim>\<open>NULL\<close> or the array
  has no item (the two cases of \<^verbatim>\<open>ARRAY_EMPTY\<close>); \<open>rule_actions\<close> and
  \<open>rule_users\<close> are \<open>None\<close> for \<^verbatim>\<open>NULL\<close>; \<open>rule_rules\<close> is the
  queue of nested rules.
\<close>

type_synonym replstr = "string option"

datatype rule = Rule
  (rule_idx: nat)
  (rule_accounts: "string list")
  (rule_type: rule_type)
  (rule_expr: "expritem list")
  (rule_key: replstr)
  (rule_value: replstr)
  (rule_actions: "replstr list option")
  (rule_stop: bool)
  (rule_find_uid: bool)
  (rule_users: "uid list option")
  (rule_rules: "rule list")

subsection \<open>do\_expr\<close>

text \<open>
  The \<^verbatim>\<open>TAILQ_FOREACH\<close> of \<^verbatim>\<open>do_expr\<close> over \<^verbatim>\<open>r->expr\<close>, with
  \<^verbatim>\<open>fres\<close> as accumulator, which starts at 0. C's \<^verbatim>\<open>||\<close> and \<^verbatim>\<open>&&\<close> give 0 or 1, so \<^verbatim>\<open>fres\<close>
  is a \<open>bool\<close>, returned as 1 or 0; \<open>-1\<close> is the error return.
\<close>

fun do_expr_loop :: "expritem list \<Rightarrow> match_ctx \<Rightarrow> bool \<Rightarrow> int" where
  "do_expr_loop [] mctx fres = (if fres then 1 else 0)"
| "do_expr_loop (ei # eis) mctx fres =
     (let cres = ei_match ei mctx in
      if cres = MATCH_ERROR then - 1
      else
        let cres = (cres = MATCH_TRUE);
            cres = (if ei_inverted ei then \<not> cres else cres);
            fres = (case ei_op ei of
                      OP_NONE \<Rightarrow> fres \<or> cres
                    | OP_OR \<Rightarrow> fres \<or> cres
                    | OP_AND \<Rightarrow> fres \<and> cres)
        in do_expr_loop eis mctx fres)"

definition do_expr :: "rule \<Rightarrow> match_ctx \<Rightarrow> int" where
  "do_expr r mctx = do_expr_loop (rule_expr r) mctx False"

subsection \<open>Configuration, and what child.c calls from other files\<close>

text \<open>The fields of the global \<^verbatim>\<open>conf\<close> that \<^verbatim>\<open>child.c\<close> reads.\<close>

record conf =
  conf_del_big :: bool
  conf_purge_after :: "32 word"
  conf_no_received :: bool
  conf_info_fqdn :: "string option"
  conf_info_host :: string
  conf_rules :: "rule list"
  conf_impl_act :: decision
  conf_keep_all :: bool
  conf_def_user :: uid

text \<open>
  The functions \<^verbatim>\<open>child.c\<close> calls and other files define, as parameters:
  nothing is assumed about them but their types.
  \<^item> \<open>name_match pattern name\<close>: the \<^verbatim>\<open>fnmatch\<close> test of an account name;
  \<^item> \<open>replacestr rs tags m\<close>: the template \<open>rs\<close> with tags and message fields
    substituted (\<open>None\<close> for \<^verbatim>\<open>NULL\<close>);
  \<^item> \<open>match_actions s\<close>: the configured actions whose name matches \<open>s\<close>;
  \<^item> \<open>find_users m\<close>: the users derived from the message (\<open>None\<close> for
    \<^verbatim>\<open>NULL\<close>);
  \<^item> \<open>update_tags\<close>, \<open>mail_send\<close>, \<open>mail_receive\<close>, \<open>trim_from\<close>,
    \<open>fill_wrapped\<close> (with the count it returns), \<open>find_header\<close> (the header's
    value, whose length is \<^verbatim>\<open>len\<close>), \<open>insert_header\<close> (with its return
    code) and \<open>rfc822_time\<close> (\<open>None\<close> when it fails);
  \<^item> \<open>progname\<close> and \<open>build\<close>: \<^verbatim>\<open>__progname\<close> and \<^verbatim>\<open>BUILD\<close>.
\<close>

record ext =
  name_match :: "string \<Rightarrow> string \<Rightarrow> bool"
  replacestr :: "replstr \<Rightarrow> strb \<Rightarrow> mail \<Rightarrow> string option"
  match_actions :: "string option \<Rightarrow> action list"
  find_users :: "mail \<Rightarrow> uid list option"
  update_tags :: "strb \<Rightarrow> strb"
  mail_send :: "mail \<Rightarrow> msg \<Rightarrow> msg"
  mail_receive :: "mail \<Rightarrow> msg \<Rightarrow> mail"
  trim_from :: "mail \<Rightarrow> mail"
  fill_wrapped :: "mail \<Rightarrow> nat \<times> mail"
  find_header :: "mail \<Rightarrow> string \<Rightarrow> string option"
  insert_header :: "mail \<Rightarrow> string \<Rightarrow> string \<Rightarrow> int \<times> mail"
  rfc822_time :: "string option"
  progname :: string
  build :: string

text \<open>
  Modelled from the spec: \<^verbatim>\<open>add_tag\<close>, defined outside \<^verbatim>\<open>child.c\<close>.
  The tags are a mapping from tag name to value with unique keys; adding a tag adds the
  key or overwrites its value.
\<close>

definition add_tag :: "strb \<Rightarrow> string \<Rightarrow> string \<Rightarrow> strb" where
  "add_tag tags key val = AList.update key val tags"

text \<open>
  Modelled from the spec: \<^verbatim>\<open>set_wrapped\<close>, defined outside \<^verbatim>\<open>child.c\<close>.
  The wrapped-line markers are the positions where a header line is folded;
  \<^verbatim>\<open>set_wrapped(m, ch)\<close> writes \<open>ch\<close> at each of them: a space joins the
  lines, a newline restores them. (A marker beyond the data writes nothing here.)
\<close>

definition set_wrapped :: "mail \<Rightarrow> char \<Rightarrow> mail" where
  "set_wrapped m ch =
     m\<lparr>mail_data := fold (\<lambda>i d. d[i := ch]) (mail_wrapped m) (mail_data m)\<rparr>"

text \<open>
  Modelled from the spec: \<^verbatim>\<open>privsep_send\<close> and \<^verbatim>\<open>privsep_recv\<close>,
  defined outside \<^verbatim>\<open>child.c\<close>: a strictly synchronous channel, one request and
  then its reply. Both return 0 on success. A receive from a parent that has nothing more
  to say fails.
\<close>

definition privsep_send :: "io \<Rightarrow> msg \<Rightarrow> strb \<Rightarrow> int \<times> io" where
  "privsep_send i m buf =
     (case io_script i of
        SendFails # rest \<Rightarrow> (1, i\<lparr>io_script := rest\<rparr>)
      | _ \<Rightarrow> (0, i\<lparr>io_sent := io_sent i @ [(m, buf)]\<rparr>))"

definition privsep_recv :: "io \<Rightarrow> msg \<Rightarrow> int \<times> msg \<times> strb option \<times> io" where
  "privsep_recv i m =
     (case io_script i of
        Answer reply buf # rest \<Rightarrow> (0, reply, buf, i\<lparr>io_script := rest\<rparr>)
      | _ \<Rightarrow> (1, m, None, i\<lparr>io_script := tl (io_script i)\<rparr>))"

subsection \<open>The state the rule engine works on\<close>

text \<open>
  What \<^verbatim>\<open>log_warnx\<close> prints, one constructor for each call of it, with the
  arguments of the format string.
\<close>

datatype warning =
  Warn_no_actions string "string option" replstr
| Warn_end_of_ruleset string
| Warn_too_big string nat
| Warn_empty string
| Warn_aborted string string

datatype fatal = Fatalx string

text \<open>
  The match context, together with the string \<^verbatim>\<open>*cause\<close> that
  \<^verbatim>\<open>do_rules\<close> writes for its caller (\<open>None\<close> for \<^verbatim>\<open>NULL\<close>) and the
  warnings logged so far.
\<close>

record run = match_ctx +
  cause :: "string option"
  warnx :: "warning list"

definition mctx_of :: "run \<Rightarrow> match_ctx" where
  "mctx_of s = \<lparr>io = io s, account = account s, mail = mail s,
                 matched = matched s, stopped = stopped s\<rparr>"

subsection \<open>do\_action\<close>

text \<open>
  The block ``figure out the users to use'' of \<^verbatim>\<open>do_action\<close>: the chain of
  \<^verbatim>\<open>if\<close>/\<^verbatim>\<open>else if\<close> that sets \<^verbatim>\<open>users\<close>, and the default
  for \<^verbatim>\<open>users == NULL\<close>. (The flag \<^verbatim>\<open>find\<close> only says whether the array
  is freed.)
\<close>

definition do_action_users :: "ext \<Rightarrow> conf \<Rightarrow> rule \<Rightarrow> account \<Rightarrow> action \<Rightarrow> mail \<Rightarrow> uid list" where
  "do_action_users x c r a t m =
     (let users =
        (if rule_find_uid r then find_users x m
         else if rule_users r \<noteq> None then rule_users r
         else if act_find_uid t then find_users x m
         else if act_users t \<noteq> None then act_users t
         else if acct_find_uid a then find_users x m
         else if acct_users a \<noteq> None then acct_users a
         else None)
      in case users of None \<Rightarrow> [conf_def_user c] | Some us \<Rightarrow> us)"

text \<open>A \<^verbatim>\<open>struct mail\<close> after \<^verbatim>\<open>memset(.., 0, ..)\<close>.\<close>

definition mail_zero :: mail where
  "mail_zero = \<lparr>mail_data = [], mail_size = 0, mail_body = 0,
                 mail_decision = DECISION_NONE, mail_tags = [], mail_wrapped = []\<rparr>"

text \<open>
  The loop of \<^verbatim>\<open>do_action\<close> over \<^verbatim>\<open>users\<close>: one round trip to the parent
  for each user. \<^verbatim>\<open>continue\<close> and the end of the body are the recursive calls.
  \<open>do_action_msg\<close> is the request: the zeroed \<^verbatim>\<open>msg\<close> with its fields set,
  after \<^verbatim>\<open>mail_send\<close>.
\<close>

definition do_action_msg :: "ext \<Rightarrow> action \<Rightarrow> uid \<Rightarrow> run \<Rightarrow> msg" where
  "do_action_msg x t u s =
     mail_send x (mail s)
       \<lparr>msg_type = MSG_ACTION, msg_account = Some (account s),
        msg_action = Some t, msg_uid = u, msg_error = 0, msg_mail = mail_zero\<rparr>"

fun do_action_loop :: "ext \<Rightarrow> action \<Rightarrow> uid list \<Rightarrow> run \<Rightarrow> fatal + int \<times> run" where
  "do_action_loop x t [] s = Inr (0, s)"
| "do_action_loop x t (u # us) s =
     (let m = mail s;
          msg = do_action_msg x t u s;
          (rc, i) = privsep_send (io s) msg (mail_tags m)
      in if rc \<noteq> 0 then Inl (Fatalx ''child: privsep_send error'')
         else
           let (rc, msg, buf, i) = privsep_recv i msg
           in if rc \<noteq> 0 then Inl (Fatalx ''child: privsep_recv error'')
              else if msg_type msg \<noteq> MSG_DONE then Inl (Fatalx ''child: unexpected message'')
              else
                case buf of
                  None \<Rightarrow> Inl (Fatalx ''child: bad tags'')
                | Some b \<Rightarrow>
                    let m = m\<lparr>mail_tags := update_tags x b\<rparr>;
                        s = s\<lparr>io := i, mail := m\<rparr>
                    in if msg_error msg \<noteq> 0 then Inr (1, s)
                       else if dlv_type (act_deliver t) \<noteq> DELIVER_WRBACK then
                         if mail_size m \<noteq> mail_size (msg_mail msg) \<or>
                            mail_body m \<noteq> mail_body (msg_mail msg)
                         then Inl (Fatalx ''child: corrupted message'')
                         else do_action_loop x t us s
                       else
                         let m = mail_receive x m msg;
                             m = trim_from x m;
                             (l, m) = fill_wrapped x m
                         in do_action_loop x t us (s\<lparr>mail := m\<rparr>))"

definition do_action :: "ext \<Rightarrow> conf \<Rightarrow> rule \<Rightarrow> action \<Rightarrow> run \<Rightarrow> fatal + int \<times> run" where
  "do_action x c r t s =
     (case dlv_deliver (act_deliver t) of
        None \<Rightarrow> Inr (0, s)
      | Some dl \<Rightarrow>
          let s = s\<lparr>mail := (mail s)\<lparr>mail_tags :=
                     add_tag (mail_tags (mail s)) ''action'' (act_name t)\<rparr>\<rparr>
          in if dlv_type (act_deliver t) = DELIVER_INCHILD then
               let (res, m) = dl (account s) (mail s);
                   s = s\<lparr>mail := m\<rparr>
               in if res \<noteq> DELIVER_SUCCESS then Inr (1, s) else Inr (0, s)
             else
               do_action_loop x t (do_action_users x c r (account s) t (mail s)) s)"

subsection \<open>do\_deliver\<close>

text \<open>The inner loop of \<^verbatim>\<open>do_deliver\<close>, over the actions \<^verbatim>\<open>ta\<close> found.\<close>

fun do_deliver_actions :: "ext \<Rightarrow> conf \<Rightarrow> rule \<Rightarrow> action list \<Rightarrow> run \<Rightarrow> fatal + int \<times> run" where
  "do_deliver_actions x c r [] s = Inr (0, s)"
| "do_deliver_actions x c r (t # ta) s =
     (case do_action x c r t s of
        Inl e \<Rightarrow> Inl e
      | Inr (rc, s) \<Rightarrow>
          if rc \<noteq> 0 then Inr (1, s) else do_deliver_actions x c r ta s)"

text \<open>The outer loop of \<^verbatim>\<open>do_deliver\<close>, over the templates of \<^verbatim>\<open>r->actions\<close>.\<close>

fun do_deliver_loop :: "ext \<Rightarrow> conf \<Rightarrow> rule \<Rightarrow> replstr list \<Rightarrow> run \<Rightarrow> fatal + int \<times> run" where
  "do_deliver_loop x c r [] s = Inr (0, s)"
| "do_deliver_loop x c r (rs # rss) s =
     (let m = mail s;
          str = replacestr x rs (mail_tags m) m;
          ta = match_actions x str
      in if ta = [] then
           Inr (1, s\<lparr>warnx := warnx s @ [Warn_no_actions (acct_name (account s)) str rs]\<rparr>)
         else
           case do_deliver_actions x c r ta s of
             Inl e \<Rightarrow> Inl e
           | Inr (rc, s) \<Rightarrow>
               if rc \<noteq> 0 then Inr (1, s) else do_deliver_loop x c r rss s)"

definition do_deliver :: "ext \<Rightarrow> conf \<Rightarrow> rule \<Rightarrow> run \<Rightarrow> fatal + int \<times> run" where
  "do_deliver x c r s =
     (case rule_actions r of
        None \<Rightarrow> Inr (0, s)
      | Some rss \<Rightarrow> do_deliver_loop x c r rss s)"

subsection \<open>do\_rules\<close>

text \<open>
  The test ``check if the rule is for the current account'': true when the rule goes
  on, false when the loop takes \<^verbatim>\<open>continue\<close>.
\<close>

definition do_rules_account :: "ext \<Rightarrow> rule \<Rightarrow> account \<Rightarrow> bool" where
  "do_rules_account x r a =
     (rule_accounts r = [] \<or>
      list_ex (\<lambda>name. name_match x name (acct_name a)) (rule_accounts r))"

text \<open>
  How the body of the loop of \<^verbatim>\<open>do_rules\<close> leaves the part before the nested
  rules: by \<^verbatim>\<open>continue\<close>, by \<^verbatim>\<open>return (1)\<close>, or by reaching the nested
  rules with the rule matched.
\<close>

datatype outcome = Continue run | Return1 run | Matched run

text \<open>
  The \<^verbatim>\<open>switch (r->type)\<close>: \<open>Inl\<close> when it leaves the body of the loop (by
  \<^verbatim>\<open>return (1)\<close> or by \<^verbatim>\<open>continue\<close>), \<open>Inr\<close> when it is left by
  \<^verbatim>\<open>break\<close>.
\<close>

definition do_rules_switch :: "rule \<Rightarrow> run \<Rightarrow> outcome + run" where
  "do_rules_switch r s =
     (case rule_type r of
        RULE_EXPRESSION \<Rightarrow>
          let s = s\<lparr>mail := set_wrapped (mail s) (CHR '' '')\<rparr>;
              error = do_expr r (mctx_of s)
          in if error = - 1 then Inl (Return1 (s\<lparr>cause := Some ''matching''\<rparr>))
             else if error = 0 then Inl (Continue s)
             else Inr s
      | RULE_ALL \<Rightarrow> Inr s)"

text \<open>``Tag mail if needed''.\<close>

definition do_rules_tag :: "ext \<Rightarrow> rule \<Rightarrow> run \<Rightarrow> run" where
  "do_rules_tag x r s =
     (case rule_key r of
        None \<Rightarrow> s
      | Some _ \<Rightarrow>
          let m = mail s;
              tkey = replacestr x (rule_key r) (mail_tags m) m;
              tvalue = replacestr x (rule_value r) (mail_tags m) m
          in (case (tkey, tvalue) of
                (Some k, Some v) \<Rightarrow>
                  if k \<noteq> [] then s\<lparr>mail := m\<lparr>mail_tags := add_tag (mail_tags m) k v\<rparr>\<rparr>
                  else s
              | _ \<Rightarrow> s))"

text \<open>``Tag mail if needed'' and ``handle delivery'', for a rule that has matched.\<close>

definition do_rules_matched :: "ext \<Rightarrow> conf \<Rightarrow> rule \<Rightarrow> run \<Rightarrow> fatal + outcome" where
  "do_rules_matched x c r s =
     (let s = do_rules_tag x r s
      in if rule_actions r \<noteq> None then
           let s = s\<lparr>matched := True\<rparr>
           in case do_deliver x c r s of
                Inl e \<Rightarrow> Inl e
              | Inr (rc, s) \<Rightarrow>
                  if rc \<noteq> 0 then Inr (Return1 (s\<lparr>cause := Some ''delivery''\<rparr>))
                  else Inr (Matched s)
         else Inr (Matched s))"

text \<open>
  The body of the loop up to the nested rules: the account test, the switch, ``reset
  wrapped lines'', and the part above.
\<close>

definition do_rules_rule :: "ext \<Rightarrow> conf \<Rightarrow> rule \<Rightarrow> run \<Rightarrow> fatal + outcome" where
  "do_rules_rule x c r s =
     (if \<not> do_rules_account x r (account s) then Inr (Continue s)
      else
        case do_rules_switch r s of
          Inl left \<Rightarrow> Inr left
        | Inr s \<Rightarrow>
            do_rules_matched x c r (s\<lparr>mail := set_wrapped (mail s) (CHR 0x0A)\<rparr>))"

function do_rules :: "ext \<Rightarrow> conf \<Rightarrow> rule list \<Rightarrow> run \<Rightarrow> fatal + int \<times> run" where
  "do_rules x c [] s = Inr (0, s)"
| "do_rules x c (r # rs) s =
     (case do_rules_rule x c r s of
        Inl e \<Rightarrow> Inl e
      | Inr (Continue s) \<Rightarrow> do_rules x c rs s
      | Inr (Return1 s) \<Rightarrow> Inr (1, s)
      | Inr (Matched s) \<Rightarrow>
          if rule_rules r \<noteq> [] then
            (case do_rules x c (rule_rules r) s of
               Inl e \<Rightarrow> Inl e
             | Inr (rc, s) \<Rightarrow>
                 if rc \<noteq> 0 then Inr (1, s)
                 else if stopped s then Inr (0, s)
                 else if rule_stop r then Inr (0, s\<lparr>stopped := True\<rparr>)
                 else do_rules x c rs s)
          else if rule_stop r then Inr (0, s\<lparr>stopped := True\<rparr>)
          else do_rules x c rs s)"
  by pat_completeness auto
termination
proof (relation "measure (\<lambda>(x, c, rs, s). size_list size rs)", goal_cases)
  case 1
  show ?case by simp
next
  case (2 x c r rs s)
  show ?case by simp
next
  case (3 x c r rs s)
  show ?case by (cases r) simp
next
  case (4 x c r rs s)
  show ?case by simp
next
  case (5 x c r rs s)
  show ?case by simp
qed

subsection \<open>fetch\_got\<close>

datatype fetch_code = FETCH_SUCCESS | FETCH_ERROR | FETCH_OVERSIZE | FETCH_COMPLETE

text \<open>
  The line that \<^verbatim>\<open>fetch_got\<close> formats for \<^verbatim>\<open>insert_header\<close>:
  \<^verbatim>\<open>"Received: by %.450s (%s " BUILD ", account \"%.450s\");\n\t%s"\<close>.
\<close>

definition received_line :: "string \<Rightarrow> string \<Rightarrow> string \<Rightarrow> string \<Rightarrow> string \<Rightarrow> string" where
  "received_line rnm prog bld name rtm =
     ''Received: by '' @ take 450 rnm @ '' ('' @ prog @ '' '' @ bld @ '', account '' @
     [CHR 0x22] @ take 450 name @ [CHR 0x22] @ '');'' @ [CHR 0x0A, CHR 0x09] @ rtm"

text \<open>
  The first part of \<^verbatim>\<open>fetch_got\<close>: the tag for the message-id, the received
  header (a failure to insert it is only logged) and the list of wrapped lines.
  \<^verbatim>\<open>conf.info.host\<close> is the name used when there is no
  \<^verbatim>\<open>conf.info.fqdn\<close>.
\<close>

definition fetch_got_mail :: "ext \<Rightarrow> conf \<Rightarrow> account \<Rightarrow> mail \<Rightarrow> mail" where
  "fetch_got_mail x c a m =
     (let m = (case find_header x m ''message-id'' of
                 None \<Rightarrow> m
               | Some hdr \<Rightarrow>
                   if length hdr = 0 \<or> length hdr > 2147483647 then m
                   else m\<lparr>mail_tags := add_tag (mail_tags m) ''message_id'' hdr\<rparr>);
          m = (if \<not> conf_no_received c then
                 (case rfc822_time x of
                    None \<Rightarrow> m
                  | Some rtm \<Rightarrow>
                      let rnm = (case conf_info_fqdn c of
                                   None \<Rightarrow> conf_info_host c
                                 | Some fqdn \<Rightarrow> fqdn)
                      in snd (insert_header x m ''received''
                                (received_line rnm (progname x) (build x) (acct_name a) rtm)))
               else m);
          (lines, m) = fill_wrapped x m
      in m)"

text \<open>
  The match context \<^verbatim>\<open>mctx\<close> that \<^verbatim>\<open>fetch_got\<close> hands to
  \<^verbatim>\<open>do_rules\<close>: zeroed, with the channel, the account and the mail, and
  \<^verbatim>\<open>matched = stopped = 0\<close>; with it, \<^verbatim>\<open>*cause\<close> and the warnings
  logged before the call.
\<close>

definition fetch_got_start ::
  "ext \<Rightarrow> conf \<Rightarrow> io \<Rightarrow> account \<Rightarrow> mail \<Rightarrow> string option \<Rightarrow> warning list \<Rightarrow> run" where
  "fetch_got_start x c i a m cs ws =
     \<lparr>io = i, account = a, mail = fetch_got_mail x c a m, matched = False, stopped = False,
      cause = cs, warnx = ws\<rparr>"

text \<open>
  \<^verbatim>\<open>fetch_got(io, a, m, cause)\<close>. The mail, the channel and \<^verbatim>\<open>*cause\<close>
  come back in the state of the result; \<open>ws\<close> are the warnings logged before the
  call.
\<close>

definition fetch_got ::
  "ext \<Rightarrow> conf \<Rightarrow> io \<Rightarrow> account \<Rightarrow> mail \<Rightarrow> string option \<Rightarrow> warning list
     \<Rightarrow> fatal + fetch_code \<times> run" where
  "fetch_got x c i a m cs ws =
     (let s = fetch_got_start x c i a m cs ws
      in case do_rules x c (conf_rules c) s of
           Inl e \<Rightarrow> Inl e
         | Inr (rc, s) \<Rightarrow>
             if rc \<noteq> 0 then Inr (FETCH_ERROR, s)
             else
               let s = (if stopped s then s
                        else
                          case conf_impl_act c of
                            DECISION_NONE \<Rightarrow>
                              s\<lparr>mail := (mail s)\<lparr>mail_decision := DECISION_KEEP\<rparr>,
                                warnx := warnx s @ [Warn_end_of_ruleset (acct_name a)]\<rparr>
                          | DECISION_KEEP \<Rightarrow>
                              s\<lparr>mail := (mail s)\<lparr>mail_decision := DECISION_KEEP\<rparr>\<rparr>
                          | DECISION_DROP \<Rightarrow>
                              s\<lparr>mail := (mail s)\<lparr>mail_decision := DECISION_DROP\<rparr>\<rparr>);
                   s = (if conf_keep_all c \<or> acct_keep a
                        then s\<lparr>mail := (mail s)\<lparr>mail_decision := DECISION_KEEP\<rparr>\<rparr>
                        else s)
               in Inr (FETCH_SUCCESS, s))"

subsection \<open>fetch\_account\<close>

text \<open>
  The hooks of the fetch backend (\<^verbatim>\<open>a->fetch\<close>) that \<^verbatim>\<open>fetch_account\<close>
  calls, over the backend's own data \<open>'b\<close> (\<^verbatim>\<open>a->data\<close>); \<open>None\<close> is a
  \<^verbatim>\<open>NULL\<close> hook. \<^verbatim>\<open>fetch\<close> fills the mail it is given.
\<close>

record 'b fetch =
  fetch_fetch :: "'b \<Rightarrow> mail \<Rightarrow> fetch_code \<times> mail \<times> 'b"
  fetch_done :: "('b \<Rightarrow> decision \<Rightarrow> fetch_code \<times> 'b) option"
  fetch_purge :: "('b \<Rightarrow> fetch_code \<times> 'b) option"

text \<open>
  The locals of \<^verbatim>\<open>fetch_account\<close> (the counters are \<^verbatim>\<open>u_int\<close>), the
  channel, the backend's data and the warnings logged.
\<close>

record 'b fetch_state =
  fs_n :: "32 word"
  fs_dropped :: "32 word"
  fs_kept :: "32 word"
  fs_cause :: "string option"
  fs_io :: io
  fs_data :: 'b
  fs_warnx :: "warning list"

text \<open>How one pass of the loop ends: at \<^verbatim>\<open>out:\<close>, or with the next pass.\<close>

datatype 'b pass = Out "'b fetch_state" | Again "'b fetch_state"

text \<open>The mail at the top of each pass: zeroed, no body, decision drop.\<close>

definition mail_init :: mail where
  "mail_init = mail_zero\<lparr>mail_body := - 1, mail_decision := DECISION_DROP\<rparr>"

text \<open>
  The end of the loop's body: the periodic purge. (\<^verbatim>\<open>mail_destroy\<close> frees
  the mail.)
\<close>

definition fetch_account_purge :: "conf \<Rightarrow> 'b fetch \<Rightarrow> 'b fetch_state \<Rightarrow> 'b pass" where
  "fetch_account_purge c f st =
     (case fetch_purge f of
        None \<Rightarrow> Again st
      | Some purge \<Rightarrow>
          if conf_purge_after c > 0 then
            let st = st\<lparr>fs_n := fs_n st + 1\<rparr>
            in if fs_n st \<ge> conf_purge_after c then
                 let (rc, d) = purge (fs_data st);
                     st = st\<lparr>fs_data := d\<rparr>
                 in if rc \<noteq> FETCH_SUCCESS then Out (st\<lparr>fs_cause := Some ''purging''\<rparr>)
                    else Again (st\<lparr>fs_n := 0\<rparr>)
               else Again st
          else Again st)"

text \<open>
  From the label \<^verbatim>\<open>done:\<close> on: the count and the report of the decision to
  the backend, if it has the hook, and then the purge.
\<close>

definition fetch_account_done ::
  "conf \<Rightarrow> 'b fetch \<Rightarrow> mail \<Rightarrow> 'b fetch_state \<Rightarrow> fatal + 'b pass" where
  "fetch_account_done c f m st =
     (case fetch_done f of
        None \<Rightarrow> Inr (fetch_account_purge c f st)
      | Some dn \<Rightarrow>
          (case (case mail_decision m of
                   DECISION_DROP \<Rightarrow>
                     Inr (st\<lparr>fs_cause := Some ''deleting'', fs_dropped := fs_dropped st + 1\<rparr>)
                 | DECISION_KEEP \<Rightarrow>
                     Inr (st\<lparr>fs_cause := Some ''keeping'', fs_kept := fs_kept st + 1\<rparr>)
                 | DECISION_NONE \<Rightarrow> Inl (Fatalx ''invalid decision'')) of
             Inl e \<Rightarrow> Inl e
           | Inr st \<Rightarrow>
               let (rc, d) = dn (fs_data st) (mail_decision m);
                   st = st\<lparr>fs_data := d\<rparr>
               in if rc \<noteq> FETCH_SUCCESS then Inr (Out st)
                  else Inr (fetch_account_purge c f (st\<lparr>fs_cause := None\<rparr>))))"

text \<open>One pass of the \<^verbatim>\<open>for (;;)\<close> of \<^verbatim>\<open>fetch_account\<close>.\<close>

definition fetch_account_pass ::
  "ext \<Rightarrow> conf \<Rightarrow> 'b fetch \<Rightarrow> account \<Rightarrow> 'b fetch_state \<Rightarrow> fatal + 'b pass" where
  "fetch_account_pass x c f a st =
     (let (error, m, d) = fetch_fetch f (fs_data st) mail_init;
          st = st\<lparr>fs_data := d\<rparr>
      in case error of
           FETCH_ERROR \<Rightarrow> Inr (Out (st\<lparr>fs_cause := Some ''fetching''\<rparr>))
         | FETCH_OVERSIZE \<Rightarrow>
             let st = st\<lparr>fs_warnx := fs_warnx st @ [Warn_too_big (acct_name a) (mail_size m)]\<rparr>
             in if conf_del_big c then fetch_account_done c f m st
                else Inr (Out (st\<lparr>fs_cause := Some ''fetching''\<rparr>))
         | FETCH_COMPLETE \<Rightarrow> Inr (Out st)
         | FETCH_SUCCESS \<Rightarrow>
             let m = trim_from x m
             in if mail_size m = 0 then
                  Inr (Again (st\<lparr>fs_warnx := fs_warnx st @ [Warn_empty (acct_name a)]\<rparr>))
                else
                  (case fetch_got x c (fs_io st) a m (fs_cause st) (fs_warnx st) of
                     Inl e \<Rightarrow> Inl e
                   | Inr (rc, s) \<Rightarrow>
                       let st = st\<lparr>fs_io := io s, fs_cause := cause s, fs_warnx := warnx s\<rparr>
                       in if rc \<noteq> FETCH_SUCCESS then Inr (Out st)
                          else fetch_account_done c f (mail s) st))"

text \<open>
  The loop runs until the backend ends it, so it is bounded by a number of passes:
  \<open>None\<close> is a loop that has not reached \<^verbatim>\<open>out:\<close> within them.
\<close>

fun fetch_account_loop ::
  "nat \<Rightarrow> ext \<Rightarrow> conf \<Rightarrow> 'b fetch \<Rightarrow> account \<Rightarrow> 'b fetch_state
     \<Rightarrow> (fatal + 'b fetch_state) option" where
  "fetch_account_loop 0 x c f a st = None"
| "fetch_account_loop (Suc k) x c f a st =
     (case fetch_account_pass x c f a st of
        Inl e \<Rightarrow> Some (Inl e)
      | Inr (Out st) \<Rightarrow> Some (Inr st)
      | Inr (Again st) \<Rightarrow> fetch_account_loop k x c f a st)"

text \<open>
  \<^verbatim>\<open>fetch_account\<close>: the loop from zeroed counters, then \<^verbatim>\<open>out:\<close>. The
  summary line reports \<^verbatim>\<open>n = dropped + kept\<close> and \<^verbatim>\<open>kept\<close>; the value
  returned is \<^verbatim>\<open>cause != NULL\<close>. (The times are left out.)
\<close>

definition fetch_account ::
  "nat \<Rightarrow> ext \<Rightarrow> conf \<Rightarrow> 'b fetch \<Rightarrow> account \<Rightarrow> io \<Rightarrow> 'b
     \<Rightarrow> (fatal + int \<times> 'b fetch_state) option" where
  "fetch_account k x c f a i d =
     (case fetch_account_loop k x c f a
             \<lparr>fs_n = 0, fs_dropped = 0, fs_kept = 0, fs_cause = None,
              fs_io = i, fs_data = d, fs_warnx = []\<rparr> of
        None \<Rightarrow> None
      | Some (Inl e) \<Rightarrow> Some (Inl e)
      | Some (Inr st) \<Rightarrow>
          let st = (case fs_cause st of
                      None \<Rightarrow> st
                    | Some cs \<Rightarrow>
                        st\<lparr>fs_warnx := fs_warnx st @ [Warn_aborted (acct_name a) cs]\<rparr>);
              st = st\<lparr>fs_n := fs_dropped st + fs_kept st\<rparr>
          in Some (Inr (if fs_cause st \<noteq> None then 1 else 0, st)))"

section \<open>The specification's words\<close>

subsection \<open>The fold of an expression\<close>

text \<open>
  The (possibly inverted) result of one item's primitive, the step that folds an item
  into the accumulator with the item's operator, and the fold of a list seeded by its
  first item. An item of operator \<open>OP_NONE\<close> is folded like one of \<open>OP_OR\<close>.
\<close>

definition item_result :: "match_ctx \<Rightarrow> expritem \<Rightarrow> bool" where
  "item_result mctx ei = ((ei_match ei mctx = MATCH_TRUE) \<noteq> ei_inverted ei)"

definition fold_item :: "match_ctx \<Rightarrow> bool \<Rightarrow> expritem \<Rightarrow> bool" where
  "fold_item mctx acc ei =
     (if ei_op ei = OP_AND then acc \<and> item_result mctx ei else acc \<or> item_result mctx ei)"

fun expr_fold :: "match_ctx \<Rightarrow> expritem list \<Rightarrow> bool" where
  "expr_fold mctx [] = False"
| "expr_fold mctx (ei # eis) = foldl (fold_item mctx) (item_result mctx ei) eis"

definition expr_error :: "match_ctx \<Rightarrow> expritem list \<Rightarrow> bool" where
  "expr_error mctx eis = list_ex (\<lambda>ei. ei_match ei mctx = MATCH_ERROR) eis"

text \<open>What the evaluation of a list is said to return: the error, or the fold.\<close>

definition expr_value :: "match_ctx \<Rightarrow> expritem list \<Rightarrow> int" where
  "expr_value mctx eis =
     (if expr_error mctx eis then - 1 else if expr_fold mctx eis then 1 else 0)"

subsection \<open>The identities of a delivery\<close>

text \<open>
  The providers of the identity list in their priority, each with whether it applies and
  with what it provides: the derive flag of the rule, the explicit list of the rule, then
  the same for the action and for the account. The first provider that applies wins; when
  none applies, or when the one that applies provides nothing, the list is the single
  configured default identity.
\<close>

definition identity_providers ::
  "ext \<Rightarrow> rule \<Rightarrow> account \<Rightarrow> action \<Rightarrow> mail \<Rightarrow> (bool \<times> uid list option) list" where
  "identity_providers x r a t m =
     [(rule_find_uid r, find_users x m), (rule_users r \<noteq> None, rule_users r),
      (act_find_uid t, find_users x m), (act_users t \<noteq> None, act_users t),
      (acct_find_uid a, find_users x m), (acct_users a \<noteq> None, acct_users a)]"

definition resolved_identity ::
  "ext \<Rightarrow> conf \<Rightarrow> rule \<Rightarrow> account \<Rightarrow> action \<Rightarrow> mail \<Rightarrow> uid list" where
  "resolved_identity x c r a t m =
     (case List.find fst (identity_providers x r a t m) of
        None \<Rightarrow> [conf_def_user c]
      | Some (applies, None) \<Rightarrow> [conf_def_user c]
      | Some (applies, Some us) \<Rightarrow> us)"

subsection \<open>The round trip of a delivery\<close>

text \<open>
  The state once a completion reply with the tags \<open>b\<close> has come back for the user
  \<open>u\<close>: the request is sent, the parent goes on with \<open>rest\<close>, and the tags of the
  message are the reply's (through \<^verbatim>\<open>update_tags\<close>).
\<close>

definition after_reply :: "ext \<Rightarrow> action \<Rightarrow> uid \<Rightarrow> strb \<Rightarrow> exch list \<Rightarrow> run \<Rightarrow> run" where
  "after_reply x t u b rest s =
     s\<lparr>io := (io s)\<lparr>io_sent := io_sent (io s) @ [(do_action_msg x t u s, mail_tags (mail s))],
                     io_script := rest\<rparr>,
       mail := (mail s)\<lparr>mail_tags := update_tags x b\<rparr>\<rparr>"

subsection \<open>Stop rules\<close>

text \<open>A rule that has the stop flag, or a nested rule, at any depth, that has it.\<close>

fun any_stop :: "rule \<Rightarrow> bool" where
  "any_stop (Rule idx aa ty e k v acts st fu us rs) = (st \<or> list_ex any_stop rs)"

text \<open>
  A stop rule fires in the run of a list from a state: some rule of the list that has the
  stop flag is reached, matches (with its delivery done) and has its nested rules return
  0, or a stop rule fires in the nested rules of a rule of the list that matches. A rule
  that does not match fires nothing, whatever its stop flag, and the run goes on behind
  it; a run that is left by \<^verbatim>\<open>return (1)\<close> fires nothing.
\<close>

function stop_fires :: "ext \<Rightarrow> conf \<Rightarrow> rule list \<Rightarrow> run \<Rightarrow> bool" where
  "stop_fires x c [] s = False"
| "stop_fires x c (r # rs) s =
     (case do_rules_rule x c r s of
        Inl e \<Rightarrow> False
      | Inr (Continue s1) \<Rightarrow> stop_fires x c rs s1
      | Inr (Return1 s1) \<Rightarrow> False
      | Inr (Matched s1) \<Rightarrow>
          if rule_rules r \<noteq> [] then
            (case do_rules x c (rule_rules r) s1 of
               Inl e \<Rightarrow> False
             | Inr (rc, s2) \<Rightarrow>
                 rc = 0 \<and>
                 (stop_fires x c (rule_rules r) s1 \<or> rule_stop r \<or> stop_fires x c rs s2))
          else rule_stop r \<or> stop_fires x c rs s1)"
  by pat_completeness auto
termination
proof (relation "measure (\<lambda>(x, c, rs, s). size_list size rs)", goal_cases)
  case 1
  show ?case by simp
next
  case (2 x c r rs s)
  show ?case by simp
next
  case (3 x c r rs s)
  show ?case by (cases r) simp
next
  case (4 x c r rs s)
  show ?case by simp
next
  case (5 x c r rs s)
  show ?case by simp
qed

subsection \<open>Wrapped lines\<close>

text \<open>
  The state with the wrapped header lines joined by a space, the state with them put
  back to newlines, and a mail whose wrapped-line markers all point at a newline of its
  data (what the markers are: the positions where a header line is folded).
\<close>

definition wrapped_joined :: "run \<Rightarrow> run" where
  "wrapped_joined s = s\<lparr>mail := set_wrapped (mail s) (CHR '' '')\<rparr>"

definition wrapped_restored :: "run \<Rightarrow> run" where
  "wrapped_restored s = s\<lparr>mail := set_wrapped (mail s) (CHR 0x0A)\<rparr>"

definition wrapped_newlines :: "mail \<Rightarrow> bool" where
  "wrapped_newlines m =
     list_all (\<lambda>i. i < length (mail_data m) \<and> mail_data m ! i = CHR 0x0A) (mail_wrapped m)"

subsection \<open>A template that matches no action\<close>

text \<open>The state with the warning ``no actions matching'' logged for the template.\<close>

definition no_actions_warned :: "ext \<Rightarrow> replstr \<Rightarrow> run \<Rightarrow> run" where
  "no_actions_warned x rs s =
     s\<lparr>warnx := warnx s @ [Warn_no_actions (acct_name (account s))
                              (replacestr x rs (mail_tags (mail s)) (mail s)) rs]\<rparr>"

subsection \<open>The end of the ruleset and the oversized message\<close>

text \<open>
  The decision of the implicit end-of-ruleset policy: no policy keeps (with a warning),
  keep keeps, drop drops.
\<close>

definition implicit_decision :: "decision \<Rightarrow> decision" where
  "implicit_decision impl_act =
     (case impl_act of
        DECISION_NONE \<Rightarrow> DECISION_KEEP
      | DECISION_KEEP \<Rightarrow> DECISION_KEEP
      | DECISION_DROP \<Rightarrow> DECISION_DROP)"

text \<open>
  The state of the fetch loop once the backend has signalled an oversized message: the
  backend's data and the warning ``message too big''.
\<close>

definition oversize_warned :: "account \<Rightarrow> mail \<Rightarrow> 'b \<Rightarrow> 'b fetch_state \<Rightarrow> 'b fetch_state" where
  "oversize_warned a m d st =
     st\<lparr>fs_data := d, fs_warnx := fs_warnx st @ [Warn_too_big (acct_name a) (mail_size m)]\<rparr>"

subsection \<open>Names\<close>

text \<open>
  Modelled from the spec: \<^verbatim>\<open>name_match\<close>, defined outside \<^verbatim>\<open>child.c\<close>:
  shell-glob-style matching of a name against a pattern. \<open>*\<close> stands for any run of
  characters, \<open>?\<close> for any one character, a backslash makes the next character
  literal, and every other character stands for itself (bracket expressions are not
  modelled). The properties below hold for any \<open>name_match\<close>; this one is the
  instance of their concrete cases.
\<close>

fun glob_match :: "string \<Rightarrow> string \<Rightarrow> bool" where
  "glob_match [] name = (name = [])"
| "glob_match (p # ps) name =
     (if p = CHR ''*'' then
        glob_match ps name \<or> (case name of [] \<Rightarrow> False | n # ns \<Rightarrow> glob_match (p # ps) ns)
      else if p = CHR ''?'' then
        (case name of [] \<Rightarrow> False | n # ns \<Rightarrow> glob_match ps ns)
      else if p = CHR 0x5C \<and> ps \<noteq> [] then
        (case name of [] \<Rightarrow> False | n # ns \<Rightarrow> n = hd ps \<and> glob_match (tl ps) ns)
      else
        (case name of [] \<Rightarrow> False | n # ns \<Rightarrow> n = p \<and> glob_match ps ns))"

section \<open>Concrete values\<close>

definition ex_mail :: mail where
  "ex_mail = \<lparr>mail_data = ''ab'' @ [CHR 0x0A] @ ''cd'', mail_size = 5, mail_body = - 1,
               mail_decision = DECISION_DROP, mail_tags = [], mail_wrapped = [2]\<rparr>"

definition ex_account :: account where
  "ex_account = \<lparr>acct_name = ''bob'', acct_keep = False, acct_find_uid = False,
                  acct_users = None\<rparr>"

definition ex_io :: io where
  "ex_io = \<lparr>io_sent = [], io_script = []\<rparr>"

definition ex_mctx :: match_ctx where
  "ex_mctx = \<lparr>io = ex_io, account = ex_account, mail = ex_mail,
               matched = False, stopped = False\<rparr>"

text \<open>Items whose primitive answers true, or false, whatever the context.\<close>

definition ex_item :: "match_result \<Rightarrow> exprop \<Rightarrow> expritem" where
  "ex_item res oper = \<lparr>ei_match = (\<lambda>mctx. res), ei_inverted = False, ei_op = oper\<rparr>"

definition ex_run :: run where
  "ex_run = \<lparr>io = ex_io, account = ex_account, mail = ex_mail,
              matched = False, stopped = False, cause = None, warnx = []\<rparr>"

text \<open>
  An instance of the outside functions: templates without substitution, no users derived
  from a message, the tags of a reply taken as they are, a request that carries the mail,
  and a mail that needs no trimming.
\<close>

definition ex_ext :: "action list \<Rightarrow> ext" where
  "ex_ext actions =
     \<lparr>name_match = glob_match,
      replacestr = (\<lambda>rs tags m. rs),
      match_actions = (\<lambda>str. filter (\<lambda>t. Some (act_name t) = str) actions),
      find_users = (\<lambda>m. None),
      update_tags = (\<lambda>tags. tags),
      mail_send = (\<lambda>m msg. msg\<lparr>msg_mail := m\<rparr>),
      mail_receive = (\<lambda>m msg. (msg_mail msg)\<lparr>mail_tags := mail_tags m\<rparr>),
      trim_from = (\<lambda>m. m),
      fill_wrapped = (\<lambda>m. (length (mail_wrapped m), m)),
      find_header = (\<lambda>m name. None),
      insert_header = (\<lambda>m name line. (0, m)),
      rfc822_time = None,
      progname = ''fdm'',
      build = ''1.0''\<rparr>"

definition ex_conf :: "rule list \<Rightarrow> conf" where
  "ex_conf rules =
     \<lparr>conf_del_big = True, conf_purge_after = 0, conf_no_received = True,
      conf_info_fqdn = None, conf_info_host = ''host'', conf_rules = rules,
      conf_impl_act = DECISION_NONE, conf_keep_all = False, conf_def_user = 1000\<rparr>"

text \<open>An action of a given kind whose deliverer succeeds and leaves the mail alone.\<close>

definition ex_action :: "deliver_type \<Rightarrow> action" where
  "ex_action kind =
     \<lparr>act_name = ''inbox'',
      act_deliver = \<lparr>dlv_type = kind, dlv_deliver = Some (\<lambda>a m. (DELIVER_SUCCESS, m))\<rparr>,
      act_find_uid = False, act_users = Some [7]\<rparr>"

text \<open>A completion reply with an error code and a mirrored size.\<close>

definition ex_reply :: "int \<Rightarrow> nat \<Rightarrow> msg" where
  "ex_reply err sz =
     \<lparr>msg_type = MSG_DONE, msg_account = None, msg_action = None, msg_uid = 0,
      msg_error = err, msg_mail = ex_mail\<lparr>mail_size := sz\<rparr>\<rparr>"

text \<open>The state \<open>ex_run\<close>, tagged for an action, with a parent that follows a script.\<close>

definition ex_run_script :: "exch list \<Rightarrow> run" where
  "ex_run_script script =
     ex_run\<lparr>io := \<lparr>io_sent = [], io_script = script\<rparr>,
            mail := ex_mail\<lparr>mail_tags := [(''action'', ''inbox'')]\<rparr>\<rparr>"

text \<open>
  Rules for every account that match every message: one that only may stop and may hold
  nested rules, and one that tags the message.
\<close>

definition ex_rule :: "bool \<Rightarrow> rule list \<Rightarrow> rule" where
  "ex_rule stop nested = Rule 1 [] RULE_ALL [] None None None stop False None nested"

definition ex_rule_tag :: rule where
  "ex_rule_tag = Rule 2 [] RULE_ALL [] (Some ''seen'') (Some ''yes'') None False False None []"

text \<open>
  A rule for the account \<open>alice\<close> only, which tags, delivers, stops and holds a nested
  rule; a rule with a given expression, and one with a one-item expression; a rule that
  tags, delivers, stops and holds a nested rule, but whose expression is false; and a
  rule with three action templates, the second of which names no configured action.
\<close>

definition ex_rule_alice :: rule where
  "ex_rule_alice =
     Rule 3 [''alice''] RULE_ALL [] (Some ''seen'') (Some ''yes'') (Some [Some ''inbox''])
       True False None [ex_rule_tag]"

definition ex_rule_of :: "expritem list \<Rightarrow> rule" where
  "ex_rule_of eis =
     Rule 4 [] RULE_EXPRESSION eis (Some ''seen'') (Some ''yes'') None False False None []"

definition ex_rule_expr :: "match_result \<Rightarrow> rule" where
  "ex_rule_expr res = ex_rule_of [ex_item res OP_NONE]"

definition ex_rule_unmatched :: rule where
  "ex_rule_unmatched =
     Rule 6 [] RULE_EXPRESSION [ex_item MATCH_FALSE OP_NONE] (Some ''seen'') (Some ''yes'')
       (Some [Some ''inbox'']) True False None [ex_rule_tag]"

definition ex_rule_deliver :: rule where
  "ex_rule_deliver =
     Rule 5 [] RULE_ALL [] None None (Some [Some ''inbox'', Some ''nowhere'', Some ''inbox''])
       False False None []"

text \<open>
  A backend over a counter: its first fetch signals an oversized message of 5000 bytes,
  every later one the end of the input; its completion hook succeeds; it has no purge
  hook. And the state of the fetch loop at its start.
\<close>

definition ex_fetch :: "nat fetch" where
  "ex_fetch =
     \<lparr>fetch_fetch = (\<lambda>d m. if d = 0 then (FETCH_OVERSIZE, m\<lparr>mail_size := 5000\<rparr>, 1)
                             else (FETCH_COMPLETE, m, d)),
      fetch_done = Some (\<lambda>d decision. (FETCH_SUCCESS, d)),
      fetch_purge = None\<rparr>"

definition ex_fetch_state :: "nat fetch_state" where
  "ex_fetch_state =
     \<lparr>fs_n = 0, fs_dropped = 0, fs_kept = 0, fs_cause = None, fs_io = ex_io, fs_data = 0,
      fs_warnx = []\<rparr>"

section \<open>Properties\<close>

subsection \<open>do\_expr\<close>

lemma do_expr_loop_fold:
  "do_expr_loop eis mctx fres =
     (if expr_error mctx eis then - 1
      else if foldl (fold_item mctx) fres eis then 1 else 0)"
proof (induction eis arbitrary: fres)
  case Nil
  show ?case by (simp add: expr_error_def)
next
  case (Cons ei eis)
  show ?case
  proof (cases "ei_match ei mctx = MATCH_ERROR")
    case True
    then show ?thesis by (simp add: expr_error_def)
  next
    case False
    then have "do_expr_loop (ei # eis) mctx fres =
                 do_expr_loop eis mctx (fold_item mctx fres ei)"
      by (cases "ei_op ei"; cases "ei_inverted ei")
        (simp_all add: Let_def fold_item_def item_result_def)
    moreover have "expr_error mctx (ei # eis) = expr_error mctx eis"
      using False by (simp add: expr_error_def)
    ultimately show ?thesis
      using Cons.IH [of "fold_item mctx fres ei"] by simp
  qed
qed

text \<open>
  C1: for every expression list of at least one item whose first item does not have the
  operator \<open>OP_AND\<close> (the first item of an expression has \<open>OP_NONE\<close>; \<open>OP_AND\<close>
  and \<open>OP_OR\<close> stand between an item and the one before it), \<open>do_expr\<close> returns
  \<open>-1\<close> if any primitive returns \<open>MATCH_ERROR\<close>, and otherwise the left-to-right
  fold of the (possibly inverted) results, seeded by the first item's result: each later
  item is folded as \<open>acc \<and> next\<close> for \<open>OP_AND\<close> and as \<open>acc \<or> next\<close> for
  \<open>OP_OR\<close>, in the order of the list, with no grouping by precedence. (The seed comes
  from folding the first item into \<open>fres = 0\<close> with \<open>or\<close>, which is what
  \<open>do_expr\<close> does for \<open>OP_NONE\<close>.)
\<close>

theorem do_expr_fold:
  assumes "rule_expr r \<noteq> []" and "ei_op (hd (rule_expr r)) \<noteq> OP_AND"
  shows "do_expr r mctx = expr_value mctx (rule_expr r)"
proof -
  from assms(1) obtain ei rest where eis: "rule_expr r = ei # rest"
    by (cases "rule_expr r") auto
  with assms(2) have "fold_item mctx False ei = item_result mctx ei"
    by (simp add: fold_item_def)
  then have "foldl (fold_item mctx) False (rule_expr r) = expr_fold mctx (rule_expr r)"
    by (simp add: eis)
  then show ?thesis
    by (simp add: do_expr_def do_expr_loop_fold expr_value_def)
qed

text \<open>
  The fold is not the grouping by precedence: true, then \<open>or\<close> false, then \<open>and\<close>
  false is \<open>(true \<or> false) \<and> false\<close>, that is 0. And an error of the second
  primitive is the error of the evaluation.
\<close>

theorem do_expr_fold_witness:
  "rule_expr (ex_rule_of [ex_item MATCH_TRUE OP_NONE, ex_item MATCH_FALSE OP_OR,
                           ex_item MATCH_FALSE OP_AND]) =
     [ex_item MATCH_TRUE OP_NONE, ex_item MATCH_FALSE OP_OR, ex_item MATCH_FALSE OP_AND] \<and>
   ei_op (ex_item MATCH_TRUE OP_NONE) = OP_NONE \<and>
   do_expr (ex_rule_of [ex_item MATCH_TRUE OP_NONE, ex_item MATCH_FALSE OP_OR,
                        ex_item MATCH_FALSE OP_AND]) ex_mctx = 0 \<and>
   do_expr (ex_rule_of [ex_item MATCH_TRUE OP_NONE, ex_item MATCH_ERROR OP_OR,
                        ex_item MATCH_FALSE OP_AND]) ex_mctx = - 1"
proof -
  let ?eis = "[ex_item MATCH_TRUE OP_NONE, ex_item MATCH_FALSE OP_OR, ex_item MATCH_FALSE OP_AND]"
  let ?err = "[ex_item MATCH_TRUE OP_NONE, ex_item MATCH_ERROR OP_OR, ex_item MATCH_FALSE OP_AND]"
  have e: "rule_expr (ex_rule_of eis) = eis" for eis
    by (simp add: ex_rule_of_def)
  have h1: "rule_expr (ex_rule_of ?eis) \<noteq> []" "rule_expr (ex_rule_of ?err) \<noteq> []"
    by (simp_all add: e)
  have h2: "ei_op (ex_item MATCH_TRUE OP_NONE) = OP_NONE"
    by (simp add: ex_item_def)
  then have h2': "ei_op (hd (rule_expr (ex_rule_of ?eis))) \<noteq> OP_AND"
    "ei_op (hd (rule_expr (ex_rule_of ?err))) \<noteq> OP_AND"
    by (simp_all add: e)
  have v: "expr_value ex_mctx ?eis = 0" "expr_value ex_mctx ?err = - 1"
    by (simp_all add: expr_value_def expr_error_def fold_item_def item_result_def ex_item_def)
  from do_expr_fold [OF h1(1) h2'(1), of ex_mctx]
  have c1: "do_expr (ex_rule_of ?eis) ex_mctx = 0"
    by (simp only: e v)
  from do_expr_fold [OF h1(2) h2'(2), of ex_mctx]
  have c2: "do_expr (ex_rule_of ?err) ex_mctx = - 1"
    by (simp only: e v)
  from e [of ?eis] h2 c1 c2 show ?thesis by blast
qed

subsection \<open>do\_action\<close>

lemma do_action_users_resolved:
  "do_action_users x c r a t m = resolved_identity x c r a t m"
  by (simp add: do_action_users_def resolved_identity_def identity_providers_def
      split: option.splits)

text \<open>
  C5: for every delivery that is not in-process (the action has a deliverer and its kind
  is not \<open>DELIVER_INCHILD\<close>), \<open>do_action\<close> runs its round trips for the identity
  list resolved by the priority of the specification: the first provider that applies,
  in the order rule flag, rule list, action flag, action list, account flag, account list,
  and the single default identity when none applies (or when the flag that applies
  derives no user). The list is resolved on the message already tagged with the action.
\<close>

theorem do_action_identity:
  assumes "dlv_deliver (act_deliver t) = Some dl"
    and "dlv_type (act_deliver t) \<noteq> DELIVER_INCHILD"
  shows "let s' = s\<lparr>mail := (mail s)\<lparr>mail_tags :=
                      add_tag (mail_tags (mail s)) ''action'' (act_name t)\<rparr>\<rparr>
         in do_action x c r t s =
              do_action_loop x t (resolved_identity x c r (account s) t (mail s')) s'"
  using assms by (simp add: do_action_def Let_def do_action_users_resolved)

text \<open>The rule's explicit list \<open>[5, 6]\<close> wins over the action's list \<open>[7]\<close>.\<close>

theorem do_action_identity_witness:
  "dlv_deliver (act_deliver (ex_action DELIVER_ASUSER)) = Some (\<lambda>a m. (DELIVER_SUCCESS, m)) \<and>
   dlv_type (act_deliver (ex_action DELIVER_ASUSER)) \<noteq> DELIVER_INCHILD \<and>
   do_action (ex_ext []) (ex_conf [])
       (Rule 0 [] RULE_ALL [] None None None False False (Some [5, 6]) [])
       (ex_action DELIVER_ASUSER) ex_run =
     do_action_loop (ex_ext []) (ex_action DELIVER_ASUSER) [5, 6]
       (ex_run\<lparr>mail := ex_mail\<lparr>mail_tags := [(''action'', ''inbox'')]\<rparr>\<rparr>)"
proof -
  let ?r = "Rule 0 [] RULE_ALL [] None None None False False (Some [5, 6]) []"
  let ?t = "ex_action DELIVER_ASUSER"
  have h1: "dlv_deliver (act_deliver ?t) = Some (\<lambda>a m. (DELIVER_SUCCESS, m))"
    by (simp add: ex_action_def)
  have h2: "dlv_type (act_deliver ?t) \<noteq> DELIVER_INCHILD"
    by (simp add: ex_action_def)
  have st: "ex_run\<lparr>mail := (mail ex_run)\<lparr>mail_tags :=
              add_tag (mail_tags (mail ex_run)) ''action'' (act_name ?t)\<rparr>\<rparr> =
            ex_run\<lparr>mail := ex_mail\<lparr>mail_tags := [(''action'', ''inbox'')]\<rparr>\<rparr>"
    by (simp add: ex_run_def ex_mail_def add_tag_def ex_action_def)
  have res: "resolved_identity (ex_ext []) (ex_conf []) ?r (account ex_run) ?t m = [5, 6]" for m
    by (simp add: resolved_identity_def identity_providers_def)
  from do_action_identity [OF h1 h2, of ex_run "ex_ext []" "ex_conf []" ?r]
  have "do_action (ex_ext []) (ex_conf []) ?r ?t ex_run =
          do_action_loop (ex_ext []) ?t [5, 6]
            (ex_run\<lparr>mail := ex_mail\<lparr>mail_tags := [(''action'', ''inbox'')]\<rparr>\<rparr>)"
    unfolding Let_def st res .
  with h1 h2 show ?thesis by blast
qed

text \<open>One pass of the loop of \<open>do_action\<close> when the parent answers.\<close>

lemma do_action_round_trip:
  assumes "io_script (io s) = Answer reply buf # rest"
  shows "do_action_loop x t (u # us) s =
     (if msg_type reply \<noteq> MSG_DONE then Inl (Fatalx ''child: unexpected message'')
      else
        case buf of
          None \<Rightarrow> Inl (Fatalx ''child: bad tags'')
        | Some b \<Rightarrow>
            let s' = after_reply x t u b rest s
            in if msg_error reply \<noteq> 0 then Inr (1, s')
               else if dlv_type (act_deliver t) \<noteq> DELIVER_WRBACK then
                 if mail_size (mail s) \<noteq> mail_size (msg_mail reply) \<or>
                    mail_body (mail s) \<noteq> mail_body (msg_mail reply)
                 then Inl (Fatalx ''child: corrupted message'')
                 else do_action_loop x t us s'
               else
                 do_action_loop x t us
                   (s'\<lparr>mail := snd (fill_wrapped x (trim_from x
                                   (mail_receive x (mail s') reply)))\<rparr>))"
  using assms
  by (simp add: privsep_send_def privsep_recv_def after_reply_def Let_def
      split: option.splits prod.splits)

text \<open>
  C9: at every round trip that brings back a completion reply with its tags, the tags of
  the message are replaced by the reply's (as \<^verbatim>\<open>update_tags\<close> leaves them)
  before the error code is looked at. So a reply that signals an error makes
  \<open>do_action\<close> return 1 with the message holding the returned tags, not the tags it
  had before; and a reply without error goes on to the next user with them.
\<close>

theorem do_action_tags_before_error:
  assumes "io_script (io s) = Answer reply (Some b) # rest"
    and "msg_type reply = MSG_DONE"
  shows "(msg_error reply \<noteq> 0 \<longrightarrow>
            do_action_loop x t (u # us) s = Inr (1, after_reply x t u b rest s)) \<and>
         mail_tags (mail (after_reply x t u b rest s)) = update_tags x b \<and>
         (msg_error reply = 0 \<and> dlv_type (act_deliver t) \<noteq> DELIVER_WRBACK \<and>
          mail_size (mail s) = mail_size (msg_mail reply) \<and>
          mail_body (mail s) = mail_body (msg_mail reply) \<longrightarrow>
            do_action_loop x t (u # us) s = do_action_loop x t us (after_reply x t u b rest s))"
proof -
  have "mail_tags (mail (after_reply x t u b rest s)) = update_tags x b"
    by (simp add: after_reply_def)
  then show ?thesis
    using assms
    by (simp add: do_action_round_trip [OF assms(1)] Let_def del: do_action_loop.simps)
qed

theorem do_action_tags_before_error_witness:
  "io_script (io (ex_run_script [Answer (ex_reply 1 5) (Some [(''k'', ''v'')])])) =
     [Answer (ex_reply 1 5) (Some [(''k'', ''v'')])] \<and>
   msg_type (ex_reply 1 5) = MSG_DONE \<and> msg_error (ex_reply 1 5) \<noteq> 0 \<and>
   mail_tags (mail (ex_run_script [Answer (ex_reply 1 5) (Some [(''k'', ''v'')])])) =
     [(''action'', ''inbox'')] \<and>
   map_sum id (\<lambda>(rc, s). (rc, mail_tags (mail s)))
     (do_action_loop (ex_ext []) (ex_action DELIVER_ASUSER) [7]
        (ex_run_script [Answer (ex_reply 1 5) (Some [(''k'', ''v'')])])) =
     Inr (1, [(''k'', ''v'')]) \<and>
   msg_type (ex_reply 0 5) = MSG_DONE \<and> msg_error (ex_reply 0 5) = 0 \<and>
   dlv_type (act_deliver (ex_action DELIVER_ASUSER)) \<noteq> DELIVER_WRBACK \<and>
   map_sum id (\<lambda>(rc, s). (rc, mail_tags (mail s)))
     (do_action_loop (ex_ext []) (ex_action DELIVER_ASUSER) [7]
        (ex_run_script [Answer (ex_reply 0 5) (Some [(''k'', ''v'')])])) =
     Inr (0, [(''k'', ''v'')])"
proof -
  let ?x = "ex_ext []" and ?t = "ex_action DELIVER_ASUSER"
  let ?s = "\<lambda>err. ex_run_script [Answer (ex_reply err 5) (Some [(''k'', ''v'')])]"
  have h1: "io_script (io (?s err)) = Answer (ex_reply err 5) (Some [(''k'', ''v'')]) # []"
    and h2: "msg_type (ex_reply err 5) = MSG_DONE"
    and h4: "mail_tags (mail (?s err)) = [(''action'', ''inbox'')]" for err
    by (simp_all add: ex_run_script_def ex_run_def ex_reply_def)
  have h3: "msg_error (ex_reply 1 5) \<noteq> 0" "msg_error (ex_reply 0 5) = 0"
    by (simp_all add: ex_reply_def)
  have h5: "update_tags ?x [(''k'', ''v'')] = [(''k'', ''v'')]"
    by (simp add: ex_ext_def)
  have h6: "dlv_type (act_deliver ?t) \<noteq> DELIVER_WRBACK"
    "mail_size (mail (?s 0)) = mail_size (msg_mail (ex_reply 0 5))"
    "mail_body (mail (?s 0)) = mail_body (msg_mail (ex_reply 0 5))"
    by (simp_all add: ex_action_def ex_run_script_def ex_run_def ex_reply_def ex_mail_def)
  from do_action_tags_before_error [OF h1 [of 1] h2 [of 1], of ?x ?t 7 "[]"] h3(1)
  have "do_action_loop ?x ?t [7] (?s 1) = Inr (1, after_reply ?x ?t 7 [(''k'', ''v'')] [] (?s 1))"
    and "mail_tags (mail (after_reply ?x ?t 7 [(''k'', ''v'')] [] (?s 1))) = [(''k'', ''v'')]"
    by (simp_all add: h5 del: do_action_loop.simps)
  then have c1: "map_sum id (\<lambda>(rc, s). (rc, mail_tags (mail s)))
                   (do_action_loop ?x ?t [7] (?s 1)) = Inr (1, [(''k'', ''v'')])"
    by simp
  from do_action_tags_before_error [OF h1 [of 0] h2 [of 0], of ?x ?t 7 "[]"] h3(2) h6
  have "do_action_loop ?x ?t [7] (?s 0) =
          do_action_loop ?x ?t [] (after_reply ?x ?t 7 [(''k'', ''v'')] [] (?s 0))"
    and "mail_tags (mail (after_reply ?x ?t 7 [(''k'', ''v'')] [] (?s 0))) = [(''k'', ''v'')]"
    by (simp_all add: h5 del: do_action_loop.simps)
  then have c0: "map_sum id (\<lambda>(rc, s). (rc, mail_tags (mail s)))
                   (do_action_loop ?x ?t [7] (?s 0)) = Inr (0, [(''k'', ''v'')])"
    by simp
  from h1 [of 1] h2 h3 h4 [of 1] h6(1) c1 c0 show ?thesis by simp
qed

text \<open>
  C4, as stated: at every round trip of a delivery that is not a write-back, a mirrored
  size that differs from the message's is fatal. It fails when the reply also signals an
  execution error: the error code is looked at first, and \<open>do_action\<close> returns 1
  (a delivery failure) without comparing the sizes. Here the reply mirrors the size 999
  for a message of size 5, with the error code 1.
\<close>

theorem do_action_corrupted_counterexample:
  "dlv_type (act_deliver (ex_action DELIVER_ASUSER)) \<noteq> DELIVER_WRBACK \<and>
   mail_size (msg_mail (ex_reply 1 999)) \<noteq>
     mail_size (mail (ex_run_script [Answer (ex_reply 1 999) (Some [])])) \<and>
   map_sum id fst
     (do_action_loop (ex_ext []) (ex_action DELIVER_ASUSER) [7]
        (ex_run_script [Answer (ex_reply 1 999) (Some [])])) = Inr 1"
proof -
  let ?s = "ex_run_script [Answer (ex_reply 1 999) (Some [])]"
  have "io_script (io ?s) = Answer (ex_reply 1 999) (Some []) # []"
    by (simp add: ex_run_script_def ex_run_def)
  from do_action_round_trip [OF this]
  have "map_sum id fst (do_action_loop (ex_ext []) (ex_action DELIVER_ASUSER) [7] ?s) = Inr 1"
    by (simp add: ex_reply_def Let_def del: do_action_loop.simps)
  then show ?thesis
    by (simp add: ex_action_def ex_reply_def ex_run_script_def ex_run_def ex_mail_def
        del: do_action_loop.simps)
qed

text \<open>
  C4, amended: at every round trip of a delivery that is not a write-back, if the reply
  signals no execution error and the size or the body offset it mirrors differs from the
  message's, the process ends by \<^verbatim>\<open>fatalx\<close>: with ``corrupted message'' for a
  completion reply that carries its tags, and already with ``unexpected message'' or
  ``bad tags'' for a reply of another kind or without tags. (A reply that signals an
  execution error makes \<open>do_action\<close> return 1 before the comparison.)
\<close>

theorem do_action_corrupted_fatal:
  assumes "io_script (io s) = Answer reply buf # rest"
    and "dlv_type (act_deliver t) \<noteq> DELIVER_WRBACK"
    and "mail_size (mail s) \<noteq> mail_size (msg_mail reply) \<or>
         mail_body (mail s) \<noteq> mail_body (msg_mail reply)"
    and "msg_error reply = 0"
  shows "do_action_loop x t (u # us) s =
           Inl (Fatalx (if msg_type reply \<noteq> MSG_DONE then ''child: unexpected message''
                        else if buf = None then ''child: bad tags''
                        else ''child: corrupted message''))"
  using assms(2-4)
  by (simp add: do_action_round_trip [OF assms(1)] Let_def del: do_action_loop.simps
      split: option.splits)

theorem do_action_corrupted_fatal_witness:
  "io_script (io (ex_run_script [Answer (ex_reply 0 999) (Some [])])) =
     [Answer (ex_reply 0 999) (Some [])] \<and>
   dlv_type (act_deliver (ex_action DELIVER_ASUSER)) \<noteq> DELIVER_WRBACK \<and>
   mail_size (mail (ex_run_script [Answer (ex_reply 0 999) (Some [])])) \<noteq>
     mail_size (msg_mail (ex_reply 0 999)) \<and>
   msg_error (ex_reply 0 999) = 0 \<and>
   do_action_loop (ex_ext []) (ex_action DELIVER_ASUSER) [7]
     (ex_run_script [Answer (ex_reply 0 999) (Some [])]) =
     Inl (Fatalx ''child: corrupted message'')"
proof -
  let ?s = "ex_run_script [Answer (ex_reply 0 999) (Some [])]"
  have h1: "io_script (io ?s) = Answer (ex_reply 0 999) (Some []) # []"
    by (simp add: ex_run_script_def ex_run_def)
  have h2: "dlv_type (act_deliver (ex_action DELIVER_ASUSER)) \<noteq> DELIVER_WRBACK"
    by (simp add: ex_action_def)
  have h3: "mail_size (mail ?s) \<noteq> mail_size (msg_mail (ex_reply 0 999))"
    by (simp add: ex_run_script_def ex_run_def ex_reply_def ex_mail_def)
  then have h3': "mail_size (mail ?s) \<noteq> mail_size (msg_mail (ex_reply 0 999)) \<or>
                  mail_body (mail ?s) \<noteq> mail_body (msg_mail (ex_reply 0 999))"
    by simp
  have h4: "msg_error (ex_reply 0 999) = 0"
    by (simp add: ex_reply_def)
  have h5: "msg_type (ex_reply 0 999) = MSG_DONE"
    by (simp add: ex_reply_def)
  from do_action_corrupted_fatal [OF h1 h2 h3' h4, of "ex_ext []" 7 "[]"]
  have "do_action_loop (ex_ext []) (ex_action DELIVER_ASUSER) [7] ?s =
          Inl (Fatalx ''child: corrupted message'')"
    by (simp add: h5)
  with h1 h2 h3 h4 show ?thesis by simp
qed

subsection \<open>What a delivery leaves alone\<close>

lemma do_action_loop_frame:
  "do_action_loop x t us s = Inr (rc, s') \<Longrightarrow>
     stopped s' = stopped s \<and> matched s' = matched s \<and> account s' = account s \<and>
     cause s' = cause s \<and> warnx s' = warnx s"
proof (induction us arbitrary: s)
  case Nil
  then show ?case by simp
next
  case (Cons u us)
  from Cons.prems show ?case
    by (auto simp: Let_def split: prod.splits if_splits option.splits dest!: Cons.IH)
qed

lemma do_action_frame:
  "do_action x c r t s = Inr (rc, s') \<Longrightarrow>
     stopped s' = stopped s \<and> matched s' = matched s \<and> account s' = account s \<and>
     cause s' = cause s \<and> warnx s' = warnx s"
  by (auto simp: do_action_def Let_def split: option.splits if_splits prod.splits
      dest!: do_action_loop_frame)

lemma do_deliver_actions_frame:
  "do_deliver_actions x c r ta s = Inr (rc, s') \<Longrightarrow>
     stopped s' = stopped s \<and> matched s' = matched s \<and> account s' = account s \<and>
     cause s' = cause s \<and> warnx s' = warnx s"
proof (induction ta arbitrary: s)
  case Nil
  then show ?case by simp
next
  case (Cons t ta)
  from Cons.prems show ?case
    by (auto split: sum.splits prod.splits if_splits dest!: Cons.IH do_action_frame)
qed

lemma do_deliver_loop_frame:
  "do_deliver_loop x c r rss s = Inr (rc, s') \<Longrightarrow>
     stopped s' = stopped s \<and> matched s' = matched s \<and> account s' = account s \<and>
     cause s' = cause s"
proof (induction rss arbitrary: s)
  case Nil
  then show ?case by simp
next
  case (Cons rs rss)
  from Cons.prems show ?case
    by (auto simp: Let_def split: sum.splits prod.splits if_splits
        dest!: Cons.IH do_deliver_actions_frame)
qed

lemma do_rules_rule_stopped:
  assumes "do_rules_rule x c r s = Inr out"
  shows "stopped (case out of Continue s' \<Rightarrow> s' | Return1 s' \<Rightarrow> s' | Matched s' \<Rightarrow> s') = stopped s"
  using assms
  by (auto simp: do_rules_rule_def do_rules_switch_def do_rules_matched_def do_rules_tag_def
      do_deliver_def Let_def
      split: if_splits sum.splits rule_type.splits option.splits prod.splits
      dest!: do_deliver_loop_frame)

subsection \<open>do\_rules: the stop flag\<close>

lemma do_rules_stopped_early:
  "\<not> stopped s \<Longrightarrow> do_rules x c rs s = Inr (0, s') \<Longrightarrow> stopped s' \<Longrightarrow>
     do_rules x c (rs @ rs') s = Inr (0, s')"
proof (induction rs arbitrary: s)
  case Nil
  then show ?case by simp
next
  case (Cons r rs)
  show ?case
  proof (cases "do_rules_rule x c r s")
    case (Inl e)
    with Cons.prems show ?thesis by simp
  next
    case (Inr out)
    note fr = do_rules_rule_stopped [OF Inr]
    show ?thesis
    proof (cases out)
      case (Continue s1)
      with Inr fr Cons.prems have "\<not> stopped s1" "do_rules x c rs s1 = Inr (0, s')"
        by simp_all
      from Cons.IH [OF this Cons.prems(3)] Inr Continue show ?thesis by simp
    next
      case (Return1 s1)
      with Inr Cons.prems show ?thesis by simp
    next
      case (Matched s1)
      with fr Cons.prems have ns1: "\<not> stopped s1" by simp
      show ?thesis
      proof (cases "rule_rules r = []")
        case True
        show ?thesis
        proof (cases "rule_stop r")
          case True
          with \<open>rule_rules r = []\<close> Inr Matched Cons.prems show ?thesis by simp
        next
          case False
          with \<open>rule_rules r = []\<close> Inr Matched Cons.prems
          have "do_rules x c rs s1 = Inr (0, s')" by simp
          from Cons.IH [OF ns1 this Cons.prems(3)] False \<open>rule_rules r = []\<close> Inr Matched
          show ?thesis by simp
        qed
      next
        case False
        show ?thesis
        proof (cases "do_rules x c (rule_rules r) s1")
          case (Inl e)
          with False Inr Matched Cons.prems show ?thesis by simp
        next
          case nested: (Inr p)
          obtain rc s2 where p: "p = (rc, s2)" by (cases p)
          show ?thesis
          proof (cases "rc \<noteq> 0 \<or> stopped s2 \<or> rule_stop r")
            case True
            with False Inr Matched nested p Cons.prems show ?thesis
              by (auto split: if_splits)
          next
            case F2: False
            with False Inr Matched nested p Cons.prems
            have "do_rules x c rs s2 = Inr (0, s')" by simp
            from Cons.IH [OF _ this Cons.prems(3)] F2 False Inr Matched nested p
            show ?thesis by simp
          qed
        qed
      qed
    qed
  qed
qed

lemma do_rules_exhausted:
  "do_rules x c rs s = Inr (0, s') \<Longrightarrow> \<not> stopped s' \<Longrightarrow>
     do_rules x c (rs @ rs') s = do_rules x c rs' s'"
proof (induction rs arbitrary: s)
  case Nil
  then show ?case by simp
next
  case (Cons r rs)
  show ?case
  proof (cases "do_rules_rule x c r s")
    case (Inl e)
    with Cons.prems show ?thesis by simp
  next
    case (Inr out)
    show ?thesis
    proof (cases out)
      case (Continue s1)
      with Inr Cons.prems have "do_rules x c rs s1 = Inr (0, s')"
        by simp
      from Cons.IH [OF this Cons.prems(2)] Inr Continue show ?thesis by simp
    next
      case (Return1 s1)
      with Inr Cons.prems show ?thesis by simp
    next
      case (Matched s1)
      show ?thesis
      proof (cases "rule_rules r = []")
        case True
        show ?thesis
        proof (cases "rule_stop r")
          case True
          with \<open>rule_rules r = []\<close> Inr Matched Cons.prems show ?thesis by auto
        next
          case False
          with \<open>rule_rules r = []\<close> Inr Matched Cons.prems
          have "do_rules x c rs s1 = Inr (0, s')" by simp
          from Cons.IH [OF this Cons.prems(2)] False \<open>rule_rules r = []\<close> Inr Matched
          show ?thesis by simp
        qed
      next
        case False
        show ?thesis
        proof (cases "do_rules x c (rule_rules r) s1")
          case (Inl e)
          with False Inr Matched Cons.prems show ?thesis by simp
        next
          case nested: (Inr p)
          obtain rc s2 where p: "p = (rc, s2)" by (cases p)
          show ?thesis
          proof (cases "rc \<noteq> 0 \<or> stopped s2 \<or> rule_stop r")
            case True
            with False Inr Matched nested p Cons.prems show ?thesis
              by (auto split: if_splits)
          next
            case F2: False
            with False Inr Matched nested p Cons.prems
            have "do_rules x c rs s2 = Inr (0, s')" by simp
            from Cons.IH [OF this Cons.prems(2)] F2 False Inr Matched nested p
            show ?thesis by simp
          qed
        qed
      qed
    qed
  qed
qed

lemma any_stop_sel: "any_stop r = (rule_stop r \<or> list_ex any_stop (rule_rules r))"
  by (cases r) simp

lemma do_rules_rule_stoppedC: "do_rules_rule x c r s = Inr (Continue s1) \<Longrightarrow> stopped s1 = stopped s"
  and do_rules_rule_stoppedR: "do_rules_rule x c r s = Inr (Return1 s1) \<Longrightarrow> stopped s1 = stopped s"
  and do_rules_rule_stoppedM: "do_rules_rule x c r s = Inr (Matched s1) \<Longrightarrow> stopped s1 = stopped s"
  using do_rules_rule_stopped [of x c r s] by auto

lemma do_rules_no_stop:
  "\<not> list_ex any_stop rs \<Longrightarrow> do_rules x c rs s = Inr (rc, s') \<Longrightarrow> stopped s' = stopped s"
proof (induction x c rs s arbitrary: rc s' rule: do_rules.induct)
  case (1 x c s)
  then show ?case by simp
next
  case (2 x c r rs s)
  from "2.prems"(1) have ns: "\<not> rule_stop r" "\<not> list_ex any_stop (rule_rules r)"
    "\<not> list_ex any_stop rs"
    using any_stop_sel [of r] by auto
  show ?case
  proof (cases "do_rules_rule x c r s")
    case (Inl e)
    with "2.prems" show ?thesis by simp
  next
    case (Inr out)
    show ?thesis
    proof (cases out)
      case (Continue s1)
      with Inr "2.prems" have "do_rules x c rs s1 = Inr (rc, s')" by simp
      from "2.IH"(1) [OF Inr Continue ns(3) this] do_rules_rule_stoppedC Inr Continue
      show ?thesis by simp
    next
      case (Return1 s1)
      with Inr "2.prems" do_rules_rule_stoppedR show ?thesis by auto
    next
      case (Matched s1)
      have s1: "stopped s1 = stopped s"
        using do_rules_rule_stoppedM Inr Matched by simp
      show ?thesis
      proof (cases "rule_rules r = []")
        case True
        with ns Inr Matched "2.prems" have "do_rules x c rs s1 = Inr (rc, s')" by simp
        moreover have "\<not> rule_rules r \<noteq> []" using True by simp
        ultimately show ?thesis
          using "2.IH"(4) [OF Inr Matched _ ns(1) ns(3)] s1 by simp
      next
        case False
        show ?thesis
        proof (cases "do_rules x c (rule_rules r) s1")
          case (Inl e)
          with False Inr Matched "2.prems" show ?thesis by simp
        next
          case nested: (Inr p)
          obtain rc2 s2 where p: "p = (rc2, s2)" by (cases p)
          have s2: "stopped s2 = stopped s1"
            using "2.IH"(2) [OF Inr Matched False ns(2)] nested p by simp
          show ?thesis
          proof (cases "rc2 \<noteq> 0 \<or> stopped s2")
            case True
            with False Inr Matched nested p "2.prems" s1 s2 show ?thesis
              by (auto split: if_splits)
          next
            case F2: False
            with ns False Inr Matched nested p "2.prems"
            have "do_rules x c rs s2 = Inr (rc, s')" by simp
            then have "stopped s' = stopped s2"
              using "2.IH"(3) [OF Inr Matched False nested [unfolded p] _ _ _ _ ns(3)] F2 ns
              by (auto simp del: do_rules.simps)
            with s1 s2 show ?thesis by simp
          qed
        qed
      qed
    qed
  qed
qed

lemma do_rules_stopped_iff_fires:
  "\<not> stopped s \<Longrightarrow> do_rules x c rs s = Inr (0, s') \<Longrightarrow> stopped s' = stop_fires x c rs s"
proof (induction x c rs s arbitrary: s' rule: do_rules.induct)
  case (1 x c s)
  then show ?case by simp
next
  case (2 x c r rs s)
  show ?case
  proof (cases "do_rules_rule x c r s")
    case (Inl e)
    with "2.prems" show ?thesis by simp
  next
    case (Inr out)
    show ?thesis
    proof (cases out)
      case (Continue s1)
      with Inr "2.prems" have run: "do_rules x c rs s1 = Inr (0, s')" by simp
      have "\<not> stopped s1"
        using do_rules_rule_stoppedC Inr Continue "2.prems"(1) by simp
      from "2.IH"(1) [OF Inr Continue this run] Inr Continue show ?thesis by simp
    next
      case (Return1 s1)
      with Inr "2.prems" show ?thesis by simp
    next
      case (Matched s1)
      have s1: "\<not> stopped s1"
        using do_rules_rule_stoppedM Inr Matched "2.prems"(1) by simp
      show ?thesis
      proof (cases "rule_rules r = []")
        case True
        show ?thesis
        proof (cases "rule_stop r")
          case True
          with \<open>rule_rules r = []\<close> Inr Matched "2.prems" show ?thesis by auto
        next
          case False
          with \<open>rule_rules r = []\<close> Inr Matched "2.prems"
          have run: "do_rules x c rs s1 = Inr (0, s')" by simp
          have "stopped s' = stop_fires x c rs s1"
            using "2.IH"(4) [OF Inr Matched _ False s1 run] \<open>rule_rules r = []\<close> by simp
          with False \<open>rule_rules r = []\<close> Inr Matched show ?thesis by simp
        qed
      next
        case False
        show ?thesis
        proof (cases "do_rules x c (rule_rules r) s1")
          case (Inl e)
          with False Inr Matched "2.prems" show ?thesis by simp
        next
          case nested: (Inr p)
          obtain rc2 s2 where p: "p = (rc2, s2)" by (cases p)
          from False Inr Matched nested p "2.prems"(2) have rc2: "rc2 = 0"
            by (auto split: if_splits)
          have n2: "stopped s2 = stop_fires x c (rule_rules r) s1"
            using "2.IH"(2) [OF Inr Matched False s1] nested p rc2 by simp
          show ?thesis
          proof (cases "stopped s2 \<or> rule_stop r")
            case True
            with False Inr Matched nested p rc2 n2 "2.prems" show ?thesis
              by (auto split: if_splits)
          next
            case F2: False
            with False Inr Matched nested p rc2 "2.prems"
            have run: "do_rules x c rs s2 = Inr (0, s')" by simp
            have "stopped s' = stop_fires x c rs s2"
              using "2.IH"(3) [OF Inr Matched False nested [unfolded p] refl _ _ _ _ run] F2 rc2
              by (simp del: do_rules.simps stop_fires.simps)
            with F2 False Inr Matched nested p rc2 n2 show ?thesis by simp
          qed
        qed
      qed
    qed
  qed
qed

text \<open>
  C2: the \<open>stopped\<close> flag of \<open>do_rules\<close>. In order:
  \<^item> a rule that has matched and whose stop flag is set, once its nested rules (if it has
    any) have returned 0, makes \<open>do_rules\<close> return with \<open>stopped\<close> set, whatever
    the siblings \<open>rs\<close> after it;
  \<^item> a list that returns with \<open>stopped\<close> set, entered without it, returns the same
    whatever siblings \<open>rs'\<close> follow it: nothing after the stop is evaluated, at any
    depth of the list;
  \<^item> when the nested rules of a matched rule return with \<open>stopped\<close> set, the enclosing
    list returns at once with that state, so the flag travels up to the top-level call;
  \<^item> conversely, when the nested rules return without \<open>stopped\<close> and the rule has no
    stop flag, the list goes on with the rule's siblings;
  \<^item> a list that returns 0 without \<open>stopped\<close> has run to its end: the siblings after
    it are evaluated from the state it left;
  \<^item> a list in which no rule, at any depth, has the stop flag leaves \<open>stopped\<close> as it
    found it;
  \<^item> a rule that does not match, whether it has the stop flag or not, leaves
    \<open>stopped\<close> as it was, and the list goes on with the rules after it (the last two
    statements say when a rule does not match: it is not for the account, or its
    expression evaluates to 0);
  \<^item> a list entered without \<open>stopped\<close> that returns 0 returns with \<open>stopped\<close> set
    exactly when a stop rule has fired in its run;
  \<^item> so when the nested rules of a matched rule without stop flag return 0 and no stop
    rule has fired in them, \<open>stopped\<close> is still false and the list goes on with the
    rule's siblings.
\<close>

theorem do_rules_stop:
  "(do_rules_rule x c r s = Inr (Matched s1) \<and> rule_stop r \<and>
    (if rule_rules r = [] then Inr (0, s1) else do_rules x c (rule_rules r) s1) = Inr (0, s2)
      \<longrightarrow> do_rules x c (r # rs) s = Inr (0, s2\<lparr>stopped := True\<rparr>)) \<and>
   (\<not> stopped s \<and> do_rules x c rs s = Inr (0, s') \<and> stopped s'
      \<longrightarrow> do_rules x c (rs @ rs') s = Inr (0, s')) \<and>
   (do_rules_rule x c r s = Inr (Matched s1) \<and> rule_rules r \<noteq> [] \<and>
    do_rules x c (rule_rules r) s1 = Inr (0, s2) \<and> stopped s2
      \<longrightarrow> do_rules x c (r # rs) s = Inr (0, s2)) \<and>
   (do_rules_rule x c r s = Inr (Matched s1) \<and> rule_rules r \<noteq> [] \<and>
    do_rules x c (rule_rules r) s1 = Inr (0, s2) \<and> \<not> stopped s2 \<and> \<not> rule_stop r
      \<longrightarrow> do_rules x c (r # rs) s = do_rules x c rs s2) \<and>
   (do_rules x c rs s = Inr (0, s') \<and> \<not> stopped s'
      \<longrightarrow> do_rules x c (rs @ rs') s = do_rules x c rs' s') \<and>
   (\<not> list_ex any_stop rs \<and> do_rules x c rs s = Inr (rc, s') \<longrightarrow> stopped s' = stopped s) \<and>
   (do_rules_rule x c r s = Inr (Continue s1)
      \<longrightarrow> do_rules x c (r # rs) s = do_rules x c rs s1 \<and> stopped s1 = stopped s) \<and>
   (\<not> stopped s \<and> do_rules x c rs s = Inr (0, s')
      \<longrightarrow> stopped s' = stop_fires x c rs s) \<and>
   (do_rules_rule x c r s = Inr (Matched s1) \<and> \<not> stopped s \<and> rule_rules r \<noteq> [] \<and>
    do_rules x c (rule_rules r) s1 = Inr (0, s2) \<and> \<not> stop_fires x c (rule_rules r) s1 \<and>
    \<not> rule_stop r
      \<longrightarrow> \<not> stopped s2 \<and> do_rules x c (r # rs) s = do_rules x c rs s2) \<and>
   (\<not> do_rules_account x r (account s) \<longrightarrow> do_rules_rule x c r s = Inr (Continue s)) \<and>
   (do_rules_account x r (account s) \<and> rule_type r = RULE_EXPRESSION \<and>
    do_expr r (mctx_of (wrapped_joined s)) = 0
      \<longrightarrow> do_rules_rule x c r s = Inr (Continue (wrapped_joined s)))"
proof (intro conjI impI)
  assume "\<not> do_rules_account x r (account s)"
  then show "do_rules_rule x c r s = Inr (Continue s)"
    by (simp add: do_rules_rule_def)
next
  assume "do_rules_account x r (account s) \<and> rule_type r = RULE_EXPRESSION \<and>
    do_expr r (mctx_of (wrapped_joined s)) = 0"
  then show "do_rules_rule x c r s = Inr (Continue (wrapped_joined s))"
    by (simp add: do_rules_rule_def do_rules_switch_def wrapped_joined_def Let_def)
next
  assume "do_rules_rule x c r s = Inr (Continue s1)"
  then show "do_rules x c (r # rs) s = do_rules x c rs s1" by simp
next
  assume "do_rules_rule x c r s = Inr (Continue s1)"
  then show "stopped s1 = stopped s" by (rule do_rules_rule_stoppedC)
next
  assume "\<not> stopped s \<and> do_rules x c rs s = Inr (0, s')"
  then show "stopped s' = stop_fires x c rs s"
    using do_rules_stopped_iff_fires by blast
next
  assume a: "do_rules_rule x c r s = Inr (Matched s1) \<and> \<not> stopped s \<and> rule_rules r \<noteq> [] \<and>
    do_rules x c (rule_rules r) s1 = Inr (0, s2) \<and> \<not> stop_fires x c (rule_rules r) s1 \<and>
    \<not> rule_stop r"
  then have "\<not> stopped s1"
    using do_rules_rule_stoppedM by blast
  with a show "\<not> stopped s2"
    using do_rules_stopped_iff_fires by blast
next
  assume a: "do_rules_rule x c r s = Inr (Matched s1) \<and> \<not> stopped s \<and> rule_rules r \<noteq> [] \<and>
    do_rules x c (rule_rules r) s1 = Inr (0, s2) \<and> \<not> stop_fires x c (rule_rules r) s1 \<and>
    \<not> rule_stop r"
  then have "\<not> stopped s1"
    using do_rules_rule_stoppedM by blast
  with a have "\<not> stopped s2"
    using do_rules_stopped_iff_fires by blast
  with a show "do_rules x c (r # rs) s = do_rules x c rs s2"
    by simp
next
  assume "do_rules_rule x c r s = Inr (Matched s1) \<and> rule_stop r \<and>
    (if rule_rules r = [] then Inr (0, s1) else do_rules x c (rule_rules r) s1) = Inr (0, s2)"
  then show "do_rules x c (r # rs) s = Inr (0, s2\<lparr>stopped := True\<rparr>)"
    by (cases "rule_rules r = []") auto
next
  assume "\<not> stopped s \<and> do_rules x c rs s = Inr (0, s') \<and> stopped s'"
  then show "do_rules x c (rs @ rs') s = Inr (0, s')"
    using do_rules_stopped_early by blast
next
  assume "do_rules_rule x c r s = Inr (Matched s1) \<and> rule_rules r \<noteq> [] \<and>
    do_rules x c (rule_rules r) s1 = Inr (0, s2) \<and> stopped s2"
  then show "do_rules x c (r # rs) s = Inr (0, s2)"
    by simp
next
  assume "do_rules_rule x c r s = Inr (Matched s1) \<and> rule_rules r \<noteq> [] \<and>
    do_rules x c (rule_rules r) s1 = Inr (0, s2) \<and> \<not> stopped s2 \<and> \<not> rule_stop r"
  then show "do_rules x c (r # rs) s = do_rules x c rs s2"
    by simp
next
  assume "do_rules x c rs s = Inr (0, s') \<and> \<not> stopped s'"
  then show "do_rules x c (rs @ rs') s = do_rules x c rs' s'"
    using do_rules_exhausted by blast
next
  assume "\<not> list_ex any_stop rs \<and> do_rules x c rs s = Inr (rc, s')"
  then show "stopped s' = stopped s"
    using do_rules_no_stop by blast
qed

lemmas ex_rules_defs = ex_rule_def ex_rule_tag_def do_rules_rule_def do_rules_account_def
  do_rules_switch_def do_rules_matched_def do_rules_tag_def set_wrapped_def ex_run_def
  ex_mail_def ex_ext_def add_tag_def

theorem do_rules_stop_witness:
  "do_rules (ex_ext []) (ex_conf []) [ex_rule True [], ex_rule_tag] ex_run =
     Inr (0, ex_run\<lparr>stopped := True\<rparr>) \<and>
   do_rules (ex_ext []) (ex_conf []) [ex_rule False [ex_rule True []]] ex_run =
     Inr (0, ex_run\<lparr>stopped := True\<rparr>) \<and>
   do_rules (ex_ext []) (ex_conf []) ([ex_rule False [ex_rule True []]] @ [ex_rule_tag]) ex_run =
     Inr (0, ex_run\<lparr>stopped := True\<rparr>) \<and>
   do_rules (ex_ext []) (ex_conf []) (ex_rule False [ex_rule True []] # [ex_rule_tag]) ex_run =
     Inr (0, ex_run\<lparr>stopped := True\<rparr>) \<and>
   do_rules (ex_ext []) (ex_conf []) [ex_rule False []] ex_run = Inr (0, ex_run) \<and>
   do_rules (ex_ext []) (ex_conf []) (ex_rule False [ex_rule False []] # [ex_rule_tag]) ex_run =
     do_rules (ex_ext []) (ex_conf []) [ex_rule_tag] ex_run \<and>
   do_rules (ex_ext []) (ex_conf []) ([ex_rule False [ex_rule False []]] @ [ex_rule_tag]) ex_run =
     do_rules (ex_ext []) (ex_conf []) [ex_rule_tag] ex_run \<and>
   do_rules (ex_ext []) (ex_conf []) [ex_rule_tag] ex_run =
     Inr (0, ex_run\<lparr>mail := ex_mail\<lparr>mail_tags := [(''seen'', ''yes'')]\<rparr>\<rparr>) \<and>
   \<not> list_ex any_stop [ex_rule_tag] \<and>
   stopped (ex_run\<lparr>mail := ex_mail\<lparr>mail_tags := [(''seen'', ''yes'')]\<rparr>\<rparr>) = stopped ex_run \<and>
   rule_stop ex_rule_alice \<and>
   do_rules_rule (ex_ext []) (ex_conf []) ex_rule_alice ex_run = Inr (Continue ex_run) \<and>
   do_rules (ex_ext []) (ex_conf []) (ex_rule_alice # [ex_rule_tag]) ex_run =
     do_rules (ex_ext []) (ex_conf []) [ex_rule_tag] ex_run \<and>
   stop_fires (ex_ext []) (ex_conf []) [ex_rule False [ex_rule True []]] ex_run \<and>
   \<not> stop_fires (ex_ext []) (ex_conf []) [ex_rule_alice] ex_run \<and>
   do_rules (ex_ext []) (ex_conf []) [ex_rule_alice] ex_run = Inr (0, ex_run) \<and>
   do_rules (ex_ext []) (ex_conf []) (ex_rule False [ex_rule_alice] # [ex_rule_tag]) ex_run =
     do_rules (ex_ext []) (ex_conf []) [ex_rule_tag] ex_run \<and>
   rule_stop ex_rule_unmatched \<and>
   do_expr ex_rule_unmatched (mctx_of (wrapped_joined ex_run)) = 0 \<and>
   do_rules_rule (ex_ext []) (ex_conf []) ex_rule_unmatched ex_run =
     Inr (Continue (wrapped_joined ex_run)) \<and>
   do_rules (ex_ext []) (ex_conf []) (ex_rule_unmatched # [ex_rule_tag]) ex_run =
     do_rules (ex_ext []) (ex_conf []) [ex_rule_tag] (wrapped_joined ex_run) \<and>
   stopped (wrapped_joined ex_run) = stopped ex_run"
proof -
  let ?x = "ex_ext []" and ?c = "ex_conf []"
  let ?stop = "ex_rule True []" and ?plain = "ex_rule False []"
  let ?outer_stop = "ex_rule False [ex_rule True []]"
  let ?outer_plain = "ex_rule False [ex_rule False []]"
  have m_stop: "do_rules_rule ?x ?c ?stop ex_run = Inr (Matched ex_run)"
    and m_outer_stop: "do_rules_rule ?x ?c ?outer_stop ex_run = Inr (Matched ex_run)"
    and m_outer_plain: "do_rules_rule ?x ?c ?outer_plain ex_run = Inr (Matched ex_run)"
    by (simp_all add: ex_rules_defs)
  have sel: "rule_stop ?stop" "rule_rules ?stop = []" "rule_rules ?outer_stop = [?stop]"
    "rule_rules ?outer_plain = [?plain]" "\<not> rule_stop ?outer_plain"
    by (simp_all add: ex_rule_def)
  have ns: "\<not> stopped ex_run" "stopped (ex_run\<lparr>stopped := True\<rparr>)"
    by (simp_all add: ex_run_def)
  have n_stop: "do_rules ?x ?c [?stop] ex_run = Inr (0, ex_run\<lparr>stopped := True\<rparr>)"
    and n_plain: "do_rules ?x ?c [?plain] ex_run = Inr (0, ex_run)"
    and o_stop: "do_rules ?x ?c [?outer_stop] ex_run = Inr (0, ex_run\<lparr>stopped := True\<rparr>)"
    and o_plain: "do_rules ?x ?c [?outer_plain] ex_run = Inr (0, ex_run)"
    and tag: "do_rules ?x ?c [ex_rule_tag] ex_run =
                Inr (0, ex_run\<lparr>mail := ex_mail\<lparr>mail_tags := [(''seen'', ''yes'')]\<rparr>\<rparr>)"
    by (simp_all add: ex_rules_defs)
  have no: "\<not> list_ex any_stop [ex_rule_tag]"
    by (simp add: ex_rule_tag_def)
  have "do_rules_rule ?x ?c ?stop ex_run = Inr (Matched ex_run) \<and> rule_stop ?stop \<and>
          (if rule_rules ?stop = [] then Inr (0, ex_run)
           else do_rules ?x ?c (rule_rules ?stop) ex_run) = Inr (0, ex_run)
        \<longrightarrow> do_rules ?x ?c (?stop # [ex_rule_tag]) ex_run = Inr (0, ex_run\<lparr>stopped := True\<rparr>)"
    by (rule do_rules_stop [THEN conjunct1])
  with m_stop sel
  have c1: "do_rules ?x ?c (?stop # [ex_rule_tag]) ex_run = Inr (0, ex_run\<lparr>stopped := True\<rparr>)"
    by (simp del: do_rules.simps)
  have "\<not> stopped ex_run \<and>
          do_rules ?x ?c [?outer_stop] ex_run = Inr (0, ex_run\<lparr>stopped := True\<rparr>) \<and>
          stopped (ex_run\<lparr>stopped := True\<rparr>)
        \<longrightarrow> do_rules ?x ?c ([?outer_stop] @ [ex_rule_tag]) ex_run =
              Inr (0, ex_run\<lparr>stopped := True\<rparr>)"
    by (rule do_rules_stop [THEN conjunct2, THEN conjunct1])
  with ns o_stop
  have c2: "do_rules ?x ?c ([?outer_stop] @ [ex_rule_tag]) ex_run =
              Inr (0, ex_run\<lparr>stopped := True\<rparr>)"
    by blast
  have "do_rules_rule ?x ?c ?outer_stop ex_run = Inr (Matched ex_run) \<and>
          rule_rules ?outer_stop \<noteq> [] \<and>
          do_rules ?x ?c (rule_rules ?outer_stop) ex_run = Inr (0, ex_run\<lparr>stopped := True\<rparr>) \<and>
          stopped (ex_run\<lparr>stopped := True\<rparr>)
        \<longrightarrow> do_rules ?x ?c (?outer_stop # [ex_rule_tag]) ex_run =
              Inr (0, ex_run\<lparr>stopped := True\<rparr>)"
    by (rule do_rules_stop [THEN conjunct2, THEN conjunct2, THEN conjunct1])
  with m_outer_stop sel n_stop ns
  have c3: "do_rules ?x ?c (?outer_stop # [ex_rule_tag]) ex_run =
              Inr (0, ex_run\<lparr>stopped := True\<rparr>)"
    by (simp del: do_rules.simps)
  have "do_rules_rule ?x ?c ?outer_plain ex_run = Inr (Matched ex_run) \<and>
          rule_rules ?outer_plain \<noteq> [] \<and>
          do_rules ?x ?c (rule_rules ?outer_plain) ex_run = Inr (0, ex_run) \<and>
          \<not> stopped ex_run \<and> \<not> rule_stop ?outer_plain
        \<longrightarrow> do_rules ?x ?c (?outer_plain # [ex_rule_tag]) ex_run =
              do_rules ?x ?c [ex_rule_tag] ex_run"
    by (rule do_rules_stop [THEN conjunct2, THEN conjunct2, THEN conjunct2, THEN conjunct1])
  with m_outer_plain sel n_plain ns
  have c4: "do_rules ?x ?c (?outer_plain # [ex_rule_tag]) ex_run =
              do_rules ?x ?c [ex_rule_tag] ex_run"
    by (simp del: do_rules.simps)
  have "do_rules ?x ?c [?outer_plain] ex_run = Inr (0, ex_run) \<and> \<not> stopped ex_run
        \<longrightarrow> do_rules ?x ?c ([?outer_plain] @ [ex_rule_tag]) ex_run =
              do_rules ?x ?c [ex_rule_tag] ex_run"
    by (rule do_rules_stop [THEN conjunct2, THEN conjunct2, THEN conjunct2, THEN conjunct2,
          THEN conjunct1])
  with o_plain ns
  have c5: "do_rules ?x ?c ([?outer_plain] @ [ex_rule_tag]) ex_run =
              do_rules ?x ?c [ex_rule_tag] ex_run"
    by blast
  have "\<not> list_ex any_stop [ex_rule_tag] \<and>
          do_rules ?x ?c [ex_rule_tag] ex_run =
            Inr (0, ex_run\<lparr>mail := ex_mail\<lparr>mail_tags := [(''seen'', ''yes'')]\<rparr>\<rparr>)
        \<longrightarrow> stopped (ex_run\<lparr>mail := ex_mail\<lparr>mail_tags := [(''seen'', ''yes'')]\<rparr>\<rparr>) =
              stopped ex_run"
    by (rule do_rules_stop [THEN conjunct2, THEN conjunct2, THEN conjunct2, THEN conjunct2,
          THEN conjunct2, THEN conjunct1])
  with tag no
  have c6: "stopped (ex_run\<lparr>mail := ex_mail\<lparr>mail_tags := [(''seen'', ''yes'')]\<rparr>\<rparr>) =
              stopped ex_run"
    by blast
  let ?outer_alice = "ex_rule False [ex_rule_alice]"
  have al: "rule_stop ex_rule_alice"
    by (simp add: ex_rule_alice_def)
  have m_alice: "do_rules_rule ?x ?c ex_rule_alice ex_run = Inr (Continue ex_run)"
    by (simp add: do_rules_rule_def do_rules_account_def ex_rule_alice_def ex_ext_def
        ex_run_def ex_account_def)
  have m_outer_alice: "do_rules_rule ?x ?c ?outer_alice ex_run = Inr (Matched ex_run)"
    by (simp add: ex_rules_defs)
  have sel_a: "rule_rules ?outer_alice = [ex_rule_alice]" "\<not> rule_stop ?outer_alice"
    by (simp_all add: ex_rule_def)
  have n_alice: "do_rules ?x ?c [ex_rule_alice] ex_run = Inr (0, ex_run)"
    using m_alice by simp
  have nf: "\<not> stop_fires ?x ?c [ex_rule_alice] ex_run"
    using m_alice by simp
  have "do_rules_rule ?x ?c ex_rule_alice ex_run = Inr (Continue ex_run)
        \<longrightarrow> do_rules ?x ?c (ex_rule_alice # [ex_rule_tag]) ex_run =
              do_rules ?x ?c [ex_rule_tag] ex_run \<and>
            stopped ex_run = stopped ex_run"
    by (rule do_rules_stop [THEN conjunct2, THEN conjunct2, THEN conjunct2, THEN conjunct2,
          THEN conjunct2, THEN conjunct2, THEN conjunct1])
  with m_alice
  have c7: "do_rules ?x ?c (ex_rule_alice # [ex_rule_tag]) ex_run =
              do_rules ?x ?c [ex_rule_tag] ex_run"
    by blast
  have "\<not> stopped ex_run \<and>
          do_rules ?x ?c [?outer_stop] ex_run = Inr (0, ex_run\<lparr>stopped := True\<rparr>)
        \<longrightarrow> stopped (ex_run\<lparr>stopped := True\<rparr>) = stop_fires ?x ?c [?outer_stop] ex_run"
    by (rule do_rules_stop [THEN conjunct2, THEN conjunct2, THEN conjunct2, THEN conjunct2,
          THEN conjunct2, THEN conjunct2, THEN conjunct2, THEN conjunct1])
  with ns o_stop
  have c8: "stop_fires ?x ?c [?outer_stop] ex_run"
    by blast
  have "do_rules_rule ?x ?c ?outer_alice ex_run = Inr (Matched ex_run) \<and> \<not> stopped ex_run \<and>
          rule_rules ?outer_alice \<noteq> [] \<and>
          do_rules ?x ?c (rule_rules ?outer_alice) ex_run = Inr (0, ex_run) \<and>
          \<not> stop_fires ?x ?c (rule_rules ?outer_alice) ex_run \<and> \<not> rule_stop ?outer_alice
        \<longrightarrow> \<not> stopped ex_run \<and>
            do_rules ?x ?c (?outer_alice # [ex_rule_tag]) ex_run =
              do_rules ?x ?c [ex_rule_tag] ex_run"
    by (rule do_rules_stop [THEN conjunct2, THEN conjunct2, THEN conjunct2, THEN conjunct2,
          THEN conjunct2, THEN conjunct2, THEN conjunct2, THEN conjunct2, THEN conjunct1])
  with m_outer_alice sel_a n_alice nf ns
  have c9: "do_rules ?x ?c (?outer_alice # [ex_rule_tag]) ex_run =
              do_rules ?x ?c [ex_rule_tag] ex_run"
    by (simp del: do_rules.simps stop_fires.simps)
  have na: "\<not> do_rules_account ?x ex_rule_alice (account ex_run)"
    by (simp add: do_rules_account_def ex_rule_alice_def ex_ext_def ex_run_def ex_account_def)
  have "\<not> do_rules_account ?x ex_rule_alice (account ex_run)
        \<longrightarrow> do_rules_rule ?x ?c ex_rule_alice ex_run = Inr (Continue ex_run)"
    by (rule do_rules_stop [THEN conjunct2, THEN conjunct2, THEN conjunct2, THEN conjunct2,
          THEN conjunct2, THEN conjunct2, THEN conjunct2, THEN conjunct2, THEN conjunct2,
          THEN conjunct1])
  with na have c10: "do_rules_rule ?x ?c ex_rule_alice ex_run = Inr (Continue ex_run)"
    by blast
  have un: "rule_stop ex_rule_unmatched" "rule_type ex_rule_unmatched = RULE_EXPRESSION"
    "do_rules_account ?x ex_rule_unmatched (account ex_run)"
    "do_expr ex_rule_unmatched (mctx_of (wrapped_joined ex_run)) = 0"
    by (simp_all add: ex_rule_unmatched_def do_rules_account_def do_expr_def ex_item_def)
  have "do_rules_account ?x ex_rule_unmatched (account ex_run) \<and>
          rule_type ex_rule_unmatched = RULE_EXPRESSION \<and>
          do_expr ex_rule_unmatched (mctx_of (wrapped_joined ex_run)) = 0
        \<longrightarrow> do_rules_rule ?x ?c ex_rule_unmatched ex_run =
              Inr (Continue (wrapped_joined ex_run))"
    by (rule do_rules_stop [THEN conjunct2, THEN conjunct2, THEN conjunct2, THEN conjunct2,
          THEN conjunct2, THEN conjunct2, THEN conjunct2, THEN conjunct2, THEN conjunct2,
          THEN conjunct2])
  with un
  have c11: "do_rules_rule ?x ?c ex_rule_unmatched ex_run =
               Inr (Continue (wrapped_joined ex_run))"
    by blast
  have "do_rules_rule ?x ?c ex_rule_unmatched ex_run = Inr (Continue (wrapped_joined ex_run))
        \<longrightarrow> do_rules ?x ?c (ex_rule_unmatched # [ex_rule_tag]) ex_run =
              do_rules ?x ?c [ex_rule_tag] (wrapped_joined ex_run) \<and>
            stopped (wrapped_joined ex_run) = stopped ex_run"
    by (rule do_rules_stop [THEN conjunct2, THEN conjunct2, THEN conjunct2, THEN conjunct2,
          THEN conjunct2, THEN conjunct2, THEN conjunct1])
  with c11
  have c12: "do_rules ?x ?c (ex_rule_unmatched # [ex_rule_tag]) ex_run =
               do_rules ?x ?c [ex_rule_tag] (wrapped_joined ex_run)"
    "stopped (wrapped_joined ex_run) = stopped ex_run"
    by blast+
  from c1 o_stop c2 c3 n_plain c4 c5 tag no c6 al c10 c7 c8 nf n_alice c9 un(1,4) c11 c12
  show ?thesis
    by blast
qed

subsection \<open>do\_rules: the account filter\<close>

text \<open>
  C8: a rule with a non-empty account filter none of whose patterns matches the name of
  the current account is skipped entirely: \<open>do_rules\<close> on the list is
  \<open>do_rules\<close> on the rules after it, from the same state, so the rule evaluates no
  expression, adds no tag, delivers nothing and enters no nested rule. This holds for any
  \<open>name_match\<close>. In the concrete case the pattern is \<open>alice\<close>, the account is
  \<open>bob\<close> and \<open>name_match\<close> is the glob match.
\<close>

theorem do_rules_account_filter:
  assumes "rule_accounts r \<noteq> []"
    and "\<not> list_ex (\<lambda>pattern. name_match x pattern (acct_name (account s))) (rule_accounts r)"
  shows "do_rules x c (r # rs) s = do_rules x c rs s"
  using assms by (simp add: do_rules_rule_def do_rules_account_def)

theorem do_rules_account_filter_witness:
  "rule_accounts ex_rule_alice = [''alice''] \<and> acct_name (account ex_run) = ''bob'' \<and>
   \<not> name_match (ex_ext [ex_action DELIVER_INCHILD]) ''alice'' ''bob'' \<and>
   do_rules (ex_ext [ex_action DELIVER_INCHILD]) (ex_conf []) [ex_rule_alice] ex_run =
     Inr (0, ex_run)"
proof -
  let ?x = "ex_ext [ex_action DELIVER_INCHILD]"
  have h0: "rule_accounts ex_rule_alice = [''alice'']" "acct_name (account ex_run) = ''bob''"
    by (simp_all add: ex_rule_alice_def ex_run_def ex_account_def)
  have nm: "\<not> name_match ?x ''alice'' ''bob''"
    by (simp add: ex_ext_def)
  have h1: "rule_accounts ex_rule_alice \<noteq> []"
    by (simp add: h0)
  have h2: "\<not> list_ex (\<lambda>pattern. name_match ?x pattern (acct_name (account ex_run)))
               (rule_accounts ex_rule_alice)"
    using nm by (simp add: h0)
  from do_rules_account_filter [OF h1 h2, of "ex_conf []" "[]"]
  have "do_rules ?x (ex_conf []) [ex_rule_alice] ex_run = Inr (0, ex_run)"
    by simp
  with h0 nm show ?thesis by blast
qed

subsection \<open>do\_rules: the wrapped lines\<close>

lemma length_fold_update [simp]:
  "length (fold (\<lambda>i d. d[i := ch]) w d) = length d"
  by (induction w arbitrary: d) simp_all

lemma nth_fold_update:
  "k < length d \<Longrightarrow>
     fold (\<lambda>i d. d[i := ch]) w d ! k = (if k \<in> set w then ch else d ! k)"
proof (induction w arbitrary: d)
  case Nil
  show ?case by simp
next
  case (Cons i w)
  from Cons.prems have "k < length (d[i := ch])" by simp
  from Cons.IH [OF this] Cons.prems show ?case
    by (auto simp: nth_list_update)
qed

lemma set_wrapped_restores:
  assumes "wrapped_newlines m"
  shows "set_wrapped (set_wrapped m (CHR '' '')) (CHR 0x0A) = m"
proof -
  let ?d = "mail_data m" and ?w = "mail_wrapped m"
  have nl: "k \<in> set ?w \<Longrightarrow> ?d ! k = CHR 0x0A" for k
    using assms by (simp add: wrapped_newlines_def list_all_iff)
  have "fold (\<lambda>i d. d[i := CHR 0x0A]) ?w (fold (\<lambda>i d. d[i := CHR '' '']) ?w ?d) = ?d"
    by (rule nth_equalityI) (auto simp: nth_fold_update nl)
  then show ?thesis
    by (simp add: set_wrapped_def)
qed

text \<open>
  C6, amended: for a rule of kind \<open>RULE_EXPRESSION\<close> that is for the current
  account, \<open>do_rules\<close> joins the wrapped lines with a space and runs the evaluator on
  the joined message. When the evaluator fails, \<open>do_rules\<close> returns 1 with the cause
  ``matching'' and the lines still joined; when the expression does not match, the loop
  goes on to the next rule with the lines still joined; when it matches, the lines are
  put back to newlines before the tag, the delivery and the nested rules. For a mail
  whose markers point at newlines, putting back after joining gives the mail as it was.
\<close>

theorem do_rules_wrapped:
  assumes "do_rules_account x r (account s)" and "rule_type r = RULE_EXPRESSION"
  shows "(do_expr r (mctx_of (wrapped_joined s)) = - 1 \<longrightarrow>
            do_rules x c (r # rs) s = Inr (1, (wrapped_joined s)\<lparr>cause := Some ''matching''\<rparr>)) \<and>
         (do_expr r (mctx_of (wrapped_joined s)) = 0 \<longrightarrow>
            do_rules x c (r # rs) s = do_rules x c rs (wrapped_joined s)) \<and>
         (do_expr r (mctx_of (wrapped_joined s)) \<noteq> - 1 \<and>
          do_expr r (mctx_of (wrapped_joined s)) \<noteq> 0 \<longrightarrow>
            do_rules_rule x c r s =
              do_rules_matched x c r (wrapped_restored (wrapped_joined s))) \<and>
         (wrapped_newlines (mail s) \<longrightarrow> wrapped_restored (wrapped_joined s) = s)"
proof -
  have "wrapped_restored (wrapped_joined s) = s" if "wrapped_newlines (mail s)"
    using set_wrapped_restores [OF that] by (simp add: wrapped_restored_def wrapped_joined_def)
  moreover have "do_rules_rule x c r s =
      (let e = do_expr r (mctx_of (wrapped_joined s))
       in if e = - 1 then Inr (Return1 ((wrapped_joined s)\<lparr>cause := Some ''matching''\<rparr>))
          else if e = 0 then Inr (Continue (wrapped_joined s))
          else do_rules_matched x c r (wrapped_restored (wrapped_joined s)))"
    using assms
    by (simp add: do_rules_rule_def do_rules_switch_def wrapped_joined_def wrapped_restored_def
        Let_def)
  ultimately show ?thesis
    by (simp add: Let_def)
qed

lemmas ex_rules_defs2 = ex_rules_defs ex_rule_expr_def ex_rule_of_def ex_item_def do_expr_def
  mctx_of_def

text \<open>
  C6, as stated: the wrapped lines are restored to newline form whatever the outcome of
  the evaluation. It fails when the expression does not match and when the evaluator
  fails: the \<^verbatim>\<open>continue\<close> and the \<^verbatim>\<open>return (1)\<close> leave the
  \<^verbatim>\<open>switch\<close> before ``reset wrapped lines''. The message \<open>ab\<close>, newline,
  \<open>cd\<close> with its marker at 2 is left as \<open>ab cd\<close>.
\<close>

theorem do_rules_wrapped_counterexample:
  "do_rules (ex_ext []) (ex_conf []) [ex_rule_expr MATCH_FALSE] ex_run =
     Inr (0, ex_run\<lparr>mail := ex_mail\<lparr>mail_data := ''ab cd''\<rparr>\<rparr>) \<and>
   do_rules (ex_ext []) (ex_conf []) [ex_rule_expr MATCH_ERROR] ex_run =
     Inr (1, ex_run\<lparr>mail := ex_mail\<lparr>mail_data := ''ab cd''\<rparr>, cause := Some ''matching''\<rparr>) \<and>
   mail_data (mail ex_run) = ''ab'' @ [CHR 0x0A] @ ''cd'' \<and>
   mail_wrapped (mail ex_run) = [2]"
  by (simp add: ex_rules_defs2)

theorem do_rules_wrapped_witness:
  "do_rules_account (ex_ext []) (ex_rule_expr MATCH_TRUE) (account ex_run) \<and>
   rule_type (ex_rule_expr MATCH_TRUE) = RULE_EXPRESSION \<and>
   wrapped_newlines (mail ex_run) \<and>
   mail_data (mail (wrapped_joined ex_run)) = ''ab cd'' \<and>
   do_expr (ex_rule_expr MATCH_TRUE) (mctx_of (wrapped_joined ex_run)) = 1 \<and>
   do_rules_rule (ex_ext []) (ex_conf []) (ex_rule_expr MATCH_TRUE) ex_run =
     do_rules_matched (ex_ext []) (ex_conf []) (ex_rule_expr MATCH_TRUE) ex_run \<and>
   do_expr (ex_rule_expr MATCH_FALSE) (mctx_of (wrapped_joined ex_run)) = 0 \<and>
   do_rules (ex_ext []) (ex_conf []) (ex_rule_expr MATCH_FALSE # [ex_rule_tag]) ex_run =
     do_rules (ex_ext []) (ex_conf []) [ex_rule_tag] (wrapped_joined ex_run) \<and>
   do_expr (ex_rule_expr MATCH_ERROR) (mctx_of (wrapped_joined ex_run)) = - 1 \<and>
   do_rules (ex_ext []) (ex_conf []) (ex_rule_expr MATCH_ERROR # [ex_rule_tag]) ex_run =
     Inr (1, (wrapped_joined ex_run)\<lparr>cause := Some ''matching''\<rparr>)"
proof -
  let ?x = "ex_ext []" and ?c = "ex_conf []"
  have acc: "do_rules_account ?x (ex_rule_expr res) (account ex_run)"
    and ty: "rule_type (ex_rule_expr res) = RULE_EXPRESSION" for res
    by (simp_all add: do_rules_account_def ex_rule_expr_def ex_rule_of_def)
  have nl: "wrapped_newlines (mail ex_run)"
    by (simp add: wrapped_newlines_def ex_run_def ex_mail_def)
  have jd: "mail_data (mail (wrapped_joined ex_run)) = ''ab cd''"
    by (simp add: wrapped_joined_def set_wrapped_def ex_run_def ex_mail_def)
  have e: "do_expr (ex_rule_expr MATCH_TRUE) (mctx_of (wrapped_joined ex_run)) = 1"
    "do_expr (ex_rule_expr MATCH_FALSE) (mctx_of (wrapped_joined ex_run)) = 0"
    "do_expr (ex_rule_expr MATCH_ERROR) (mctx_of (wrapped_joined ex_run)) = - 1"
    by (simp_all add: ex_rule_expr_def ex_rule_of_def ex_item_def do_expr_def)
  note T = do_rules_wrapped [OF acc ty, of _ ?c "[ex_rule_tag]"]
  from T [of MATCH_TRUE] e(1) nl
  have c1: "do_rules_rule ?x ?c (ex_rule_expr MATCH_TRUE) ex_run =
              do_rules_matched ?x ?c (ex_rule_expr MATCH_TRUE) ex_run"
    by (simp del: do_rules.simps)
  from T [of MATCH_FALSE] e(2)
  have c2: "do_rules ?x ?c (ex_rule_expr MATCH_FALSE # [ex_rule_tag]) ex_run =
              do_rules ?x ?c [ex_rule_tag] (wrapped_joined ex_run)"
    by (simp del: do_rules.simps)
  from T [of MATCH_ERROR] e(3)
  have c3: "do_rules ?x ?c (ex_rule_expr MATCH_ERROR # [ex_rule_tag]) ex_run =
              Inr (1, (wrapped_joined ex_run)\<lparr>cause := Some ''matching''\<rparr>)"
    by (simp del: do_rules.simps)
  from acc ty nl jd e c1 c2 c3 show ?thesis
    by blast
qed

subsection \<open>do\_deliver\<close>

lemma do_deliver_loop_append:
  "do_deliver_loop x c r pre s = Inr (0, s1) \<Longrightarrow>
     do_deliver_loop x c r (pre @ rss) s = do_deliver_loop x c r rss s1"
proof (induction pre arbitrary: s)
  case Nil
  then show ?case by simp
next
  case (Cons rs pre)
  from Cons.prems show ?case
    by (auto simp: Let_def split: if_splits sum.splits prod.splits dest: Cons.IH)
qed

text \<open>
  C10: when the templates before \<open>rs\<close> have been delivered (their loop returned 0 in
  the state \<open>s1\<close>) and \<open>rs\<close>, after substitution, matches no configured action,
  \<open>do_deliver\<close> logs the warning and returns 1 in that state, whatever templates
  \<open>post\<close> follow: none of them is looked at. The rule engine then returns 1 with the
  cause ``delivery''.
\<close>

theorem do_deliver_no_actions:
  assumes "rule_actions r = Some (pre @ rs # post)"
    and "do_deliver_loop x c r pre s = Inr (0, s1)"
    and "match_actions x (replacestr x rs (mail_tags (mail s1)) (mail s1)) = []"
  shows "do_deliver x c r s = Inr (1, no_actions_warned x rs s1) \<and>
         (s = (do_rules_tag x r s0)\<lparr>matched := True\<rparr> \<longrightarrow>
            do_rules_matched x c r s0 =
              Inr (Return1 ((no_actions_warned x rs s1)\<lparr>cause := Some ''delivery''\<rparr>)))"
proof -
  have "do_deliver_loop x c r (rs # post) s1 = Inr (1, no_actions_warned x rs s1)"
    using assms(3) by (simp add: no_actions_warned_def Let_def)
  with do_deliver_loop_append [OF assms(2), of "rs # post"] assms(1)
  have d: "do_deliver x c r s = Inr (1, no_actions_warned x rs s1)"
    by (simp add: do_deliver_def)
  then show ?thesis
    using assms(1) by (auto simp: do_rules_matched_def Let_def)
qed

theorem do_deliver_no_actions_witness:
  "rule_actions ex_rule_deliver = Some ([Some ''inbox''] @ Some ''nowhere'' # [Some ''inbox'']) \<and>
   match_actions (ex_ext [ex_action DELIVER_INCHILD]) (Some ''nowhere'') = [] \<and>
   do_deliver (ex_ext [ex_action DELIVER_INCHILD]) (ex_conf []) ex_rule_deliver
       (ex_run\<lparr>matched := True\<rparr>) =
     Inr (1, ex_run\<lparr>matched := True,
                    mail := ex_mail\<lparr>mail_tags := [(''action'', ''inbox'')]\<rparr>,
                    warnx := [Warn_no_actions ''bob'' (Some ''nowhere'') (Some ''nowhere'')]\<rparr>) \<and>
   do_rules_matched (ex_ext [ex_action DELIVER_INCHILD]) (ex_conf []) ex_rule_deliver ex_run =
     Inr (Return1 (ex_run\<lparr>matched := True,
                    mail := ex_mail\<lparr>mail_tags := [(''action'', ''inbox'')]\<rparr>,
                    warnx := [Warn_no_actions ''bob'' (Some ''nowhere'') (Some ''nowhere'')],
                    cause := Some ''delivery''\<rparr>))"
proof -
  let ?x = "ex_ext [ex_action DELIVER_INCHILD]" and ?c = "ex_conf []"
  let ?s = "ex_run\<lparr>matched := True\<rparr>"
  let ?s1 = "ex_run\<lparr>matched := True, mail := ex_mail\<lparr>mail_tags := [(''action'', ''inbox'')]\<rparr>\<rparr>"
  have h1: "rule_actions ex_rule_deliver =
              Some ([Some ''inbox''] @ Some ''nowhere'' # [Some ''inbox''])"
    by (simp add: ex_rule_deliver_def)
  have h2: "do_deliver_loop ?x ?c ex_rule_deliver [Some ''inbox''] ?s = Inr (0, ?s1)"
    by (simp add: do_action_def ex_ext_def ex_action_def ex_run_def ex_mail_def add_tag_def
        Let_def)
  have h3': "match_actions ?x (Some ''nowhere'') = []"
    by (simp add: ex_ext_def ex_action_def)
  have h3: "match_actions ?x (replacestr ?x (Some ''nowhere'') (mail_tags (mail ?s1)) (mail ?s1)) = []"
    by (simp add: ex_ext_def ex_action_def)
  have h4: "?s = (do_rules_tag ?x ex_rule_deliver ex_run)\<lparr>matched := True\<rparr>"
    by (simp add: do_rules_tag_def ex_rule_deliver_def)
  have w: "no_actions_warned ?x (Some ''nowhere'') ?s1 =
             ex_run\<lparr>matched := True,
                    mail := ex_mail\<lparr>mail_tags := [(''action'', ''inbox'')]\<rparr>,
                    warnx := [Warn_no_actions ''bob'' (Some ''nowhere'') (Some ''nowhere'')]\<rparr>"
    by (simp add: no_actions_warned_def ex_ext_def ex_run_def ex_account_def)
  from do_deliver_no_actions [OF h1 h2 h3, of ex_run] h4
  have "do_deliver ?x ?c ex_rule_deliver ?s = Inr (1, no_actions_warned ?x (Some ''nowhere'') ?s1)"
    and "do_rules_matched ?x ?c ex_rule_deliver ex_run =
           Inr (Return1 ((no_actions_warned ?x (Some ''nowhere'') ?s1)\<lparr>cause := Some ''delivery''\<rparr>))"
    by blast+
  with h1 h3' show ?thesis
    unfolding w by simp
qed

subsection \<open>fetch\_got\<close>

text \<open>
  C3: when \<open>do_rules\<close> on the top-level list returns 0, \<open>fetch_got\<close> succeeds,
  and the decision of the message is: keep, if the global keep-all option or the
  account's keep flag is set, whatever the rules or the implicit policy decided;
  otherwise, if the list was exhausted without \<open>stopped\<close>, the decision of the
  implicit policy (keep for no policy, with the warning; keep for keep; drop for drop);
  otherwise the decision the rules left. The warning is logged exactly when the list was
  exhausted and there is no policy.
\<close>

theorem fetch_got_decision:
  assumes "do_rules x c (conf_rules c) (fetch_got_start x c i a m cs ws) = Inr (0, s1)"
  shows "\<exists>s2. fetch_got x c i a m cs ws = Inr (FETCH_SUCCESS, s2) \<and>
           mail_decision (mail s2) =
             (if conf_keep_all c \<or> acct_keep a then DECISION_KEEP
              else if stopped s1 then mail_decision (mail s1)
              else implicit_decision (conf_impl_act c)) \<and>
           warnx s2 =
             (if \<not> stopped s1 \<and> conf_impl_act c = DECISION_NONE
              then warnx s1 @ [Warn_end_of_ruleset (acct_name a)] else warnx s1)"
  using assms
  by (cases "conf_impl_act c")
    (simp_all add: fetch_got_def fetch_got_start_def implicit_decision_def Let_def)

text \<open>
  An empty ruleset without policy keeps the message and warns; a stop rule leaves the
  decision drop of the message, and keep-all turns it into keep.
\<close>

theorem fetch_got_decision_witness:
  "do_rules (ex_ext []) (ex_conf []) (conf_rules (ex_conf [])) 
      (fetch_got_start (ex_ext []) (ex_conf []) ex_io ex_account ex_mail None []) =
     Inr (0, ex_run) \<and>
   \<not> stopped ex_run \<and> conf_impl_act (ex_conf []) = DECISION_NONE \<and>
   mail_decision (mail ex_run) = DECISION_DROP \<and>
   map_sum id (\<lambda>(rc, s). (rc, mail_decision (mail s), warnx s))
     (fetch_got (ex_ext []) (ex_conf []) ex_io ex_account ex_mail None []) =
     Inr (FETCH_SUCCESS, DECISION_KEEP, [Warn_end_of_ruleset ''bob'']) \<and>
   do_rules (ex_ext []) ((ex_conf [ex_rule True []])\<lparr>conf_keep_all := True\<rparr>)
      (conf_rules ((ex_conf [ex_rule True []])\<lparr>conf_keep_all := True\<rparr>))
      (fetch_got_start (ex_ext []) ((ex_conf [ex_rule True []])\<lparr>conf_keep_all := True\<rparr>)
         ex_io ex_account ex_mail None []) =
     Inr (0, ex_run\<lparr>stopped := True\<rparr>) \<and>
   map_sum id (\<lambda>(rc, s). (rc, mail_decision (mail s), warnx s))
     (fetch_got (ex_ext []) ((ex_conf [ex_rule True []])\<lparr>conf_keep_all := True\<rparr>)
        ex_io ex_account ex_mail None []) =
     Inr (FETCH_SUCCESS, DECISION_KEEP, [])"
proof -
  let ?x = "ex_ext []" and ?c = "ex_conf []"
  let ?k = "(ex_conf [ex_rule True []])\<lparr>conf_keep_all := True\<rparr>"
  have st: "fetch_got_start ?x c ex_io ex_account ex_mail None [] = ex_run"
    if "conf_no_received c" for c
    using that
    by (simp add: fetch_got_start_def fetch_got_mail_def ex_ext_def ex_run_def)
  have nr: "conf_no_received ?c" "conf_no_received ?k"
    by (simp_all add: ex_conf_def)
  have h1: "do_rules ?x ?c (conf_rules ?c)
              (fetch_got_start ?x ?c ex_io ex_account ex_mail None []) = Inr (0, ex_run)"
    unfolding st [OF nr(1)] by (simp add: ex_conf_def)
  have h2: "do_rules ?x ?k (conf_rules ?k)
              (fetch_got_start ?x ?k ex_io ex_account ex_mail None []) =
            Inr (0, ex_run\<lparr>stopped := True\<rparr>)"
    unfolding st [OF nr(2)] by (simp add: ex_conf_def ex_rules_defs)
  have f: "\<not> stopped ex_run" "conf_impl_act ?c = DECISION_NONE"
    "mail_decision (mail ex_run) = DECISION_DROP" "\<not> conf_keep_all ?c" "\<not> acct_keep ex_account"
    "warnx ex_run = []" "acct_name ex_account = ''bob''" "conf_keep_all ?k"
    by (simp_all add: ex_run_def ex_conf_def ex_mail_def ex_account_def)
  from fetch_got_decision [OF h1] f
  have c1: "map_sum id (\<lambda>(rc, s). (rc, mail_decision (mail s), warnx s))
              (fetch_got ?x ?c ex_io ex_account ex_mail None []) =
            Inr (FETCH_SUCCESS, DECISION_KEEP, [Warn_end_of_ruleset ''bob''])"
    by (auto simp: implicit_decision_def)
  from fetch_got_decision [OF h2] f
  have c2: "map_sum id (\<lambda>(rc, s). (rc, mail_decision (mail s), warnx s))
              (fetch_got ?x ?k ex_io ex_account ex_mail None []) =
            Inr (FETCH_SUCCESS, DECISION_KEEP, [])"
    by auto
  from h1 h2 f c1 c2 show ?thesis by blast
qed

subsection \<open>fetch\_account\<close>

text \<open>
  C7, as stated: with the discard of oversized messages enabled, an oversized item is
  counted neither as kept nor as dropped. It fails for a backend that has a completion
  hook: the item goes to \<^verbatim>\<open>done:\<close> with the decision drop that the mail was
  given before the fetch, and \<^verbatim>\<open>dropped\<close> is incremented. A run of one
  oversized item ends with \<^verbatim>\<open>dropped = 1\<close> and reports one message processed.
\<close>

theorem fetch_account_oversize_counterexample:
  "conf_del_big (ex_conf []) \<and>
   fetch_fetch ex_fetch 0 mail_init = (FETCH_OVERSIZE, mail_init\<lparr>mail_size := 5000\<rparr>, 1) \<and>
   fetch_account 2 (ex_ext []) (ex_conf []) ex_fetch ex_account ex_io 0 =
     Some (Inr (0, \<lparr>fs_n = 1, fs_dropped = 1, fs_kept = 0, fs_cause = None, fs_io = ex_io,
                      fs_data = 1, fs_warnx = [Warn_too_big ''bob'' 5000]\<rparr>))"
  by (simp add: fetch_account_def fetch_account_pass_def fetch_account_done_def
      fetch_account_purge_def ex_fetch_def ex_conf_def ex_account_def mail_init_def
      mail_zero_def numeral_2_eq_2)

lemma fetch_account_purge_counts:
  "fetch_account_purge c f st = p \<Longrightarrow>
     (case p of Out st' \<Rightarrow> fs_dropped st' = fs_dropped st \<and> fs_kept st' = fs_kept st
              | Again st' \<Rightarrow> fs_dropped st' = fs_dropped st \<and> fs_kept st' = fs_kept st)"
  by (auto simp: fetch_account_purge_def Let_def split: option.splits prod.splits if_splits)

text \<open>
  C7, amended: when the backend signals an oversized message and the discard of oversized
  messages is enabled, the pass does not abort at the fetch: the item is finished at
  \<^verbatim>\<open>done:\<close>.
  \<^item> If the backend has no completion hook, the item is counted in neither count.
  \<^item> If the backend has a completion hook and has left the decision of the mail at drop,
    the value the mail is given before the fetch, the item is counted in the dropped
    count, not in the kept count, and reported to the hook as dropped; if the hook fails,
    the run is aborted with the cause ``deleting''.
  \<^item> The periodic purge follows. Without a purge hook or a purge threshold the loop goes
    on; with both, it goes on with the counter \<open>n\<close> incremented when the threshold is
    not reached, and with \<open>n\<close> reset when it is reached and the purge succeeds; only a
    purge that is due and fails aborts the run, with the cause ``purging''. The purge
    changes no count.
  \<^item> A pass that ends with ``again'' is followed by the next pass of the loop.
\<close>

theorem fetch_account_oversize:
  assumes "fetch_fetch f (fs_data st) mail_init = (FETCH_OVERSIZE, m, d)"
    and "conf_del_big c"
  shows "(fetch_done f = None \<longrightarrow>
            fetch_account_pass x c f a st =
              Inr (fetch_account_purge c f (oversize_warned a m d st))) \<and>
         (fetch_done f = Some dn \<and> mail_decision m = DECISION_DROP \<and>
          dn d DECISION_DROP = (FETCH_SUCCESS, d') \<longrightarrow>
            fetch_account_pass x c f a st =
              Inr (fetch_account_purge c f
                     ((oversize_warned a m d' st)
                        \<lparr>fs_cause := None, fs_dropped := fs_dropped st + 1\<rparr>))) \<and>
         (fetch_done f = Some dn \<and> mail_decision m = DECISION_DROP \<and>
          dn d DECISION_DROP = (rc, d') \<and> rc \<noteq> FETCH_SUCCESS \<longrightarrow>
            fetch_account_pass x c f a st =
              Inr (Out ((oversize_warned a m d' st)
                          \<lparr>fs_cause := Some ''deleting'', fs_dropped := fs_dropped st + 1\<rparr>))) \<and>
         (fetch_purge f = None \<or> conf_purge_after c = 0 \<longrightarrow>
            fetch_account_purge c f st' = Again st') \<and>
         (fetch_purge f = Some purge \<and> 0 < conf_purge_after c \<and>
          fs_n st' + 1 < conf_purge_after c \<longrightarrow>
            fetch_account_purge c f st' = Again (st'\<lparr>fs_n := fs_n st' + 1\<rparr>)) \<and>
         (fetch_purge f = Some purge \<and> 0 < conf_purge_after c \<and>
          conf_purge_after c \<le> fs_n st' + 1 \<and> purge (fs_data st') = (FETCH_SUCCESS, d'') \<longrightarrow>
            fetch_account_purge c f st' = Again (st'\<lparr>fs_data := d'', fs_n := 0\<rparr>)) \<and>
         (fetch_purge f = Some purge \<and> 0 < conf_purge_after c \<and>
          conf_purge_after c \<le> fs_n st' + 1 \<and> purge (fs_data st') = (rc', d'') \<and>
          rc' \<noteq> FETCH_SUCCESS \<longrightarrow>
            fetch_account_purge c f st' =
              Out (st'\<lparr>fs_n := fs_n st' + 1, fs_data := d'', fs_cause := Some ''purging''\<rparr>)) \<and>
         (case fetch_account_purge c f st' of
            Out st'' \<Rightarrow> fs_dropped st'' = fs_dropped st' \<and> fs_kept st'' = fs_kept st'
          | Again st'' \<Rightarrow> fs_dropped st'' = fs_dropped st' \<and> fs_kept st'' = fs_kept st') \<and>
         (fetch_account_pass x c f a st = Inr (Again st') \<longrightarrow>
            fetch_account_loop (Suc k) x c f a st = fetch_account_loop k x c f a st')"
proof (intro conjI impI)
  show "case fetch_account_purge c f st' of
          Out st'' \<Rightarrow> fs_dropped st'' = fs_dropped st' \<and> fs_kept st'' = fs_kept st'
        | Again st'' \<Rightarrow> fs_dropped st'' = fs_dropped st' \<and> fs_kept st'' = fs_kept st'"
    by (rule fetch_account_purge_counts) (rule refl)
next
  assume "fetch_done f = None"
  with assms show "fetch_account_pass x c f a st =
      Inr (fetch_account_purge c f (oversize_warned a m d st))"
    by (simp add: fetch_account_pass_def fetch_account_done_def oversize_warned_def Let_def)
next
  assume "fetch_done f = Some dn \<and> mail_decision m = DECISION_DROP \<and>
          dn d DECISION_DROP = (FETCH_SUCCESS, d')"
  with assms show "fetch_account_pass x c f a st =
      Inr (fetch_account_purge c f
             ((oversize_warned a m d' st)\<lparr>fs_cause := None, fs_dropped := fs_dropped st + 1\<rparr>))"
    by (simp add: fetch_account_pass_def fetch_account_done_def oversize_warned_def Let_def)
      (rule arg_cong [where f = "fetch_account_purge c f"], rule fetch_state.equality, simp_all)
next
  assume "fetch_done f = Some dn \<and> mail_decision m = DECISION_DROP \<and>
          dn d DECISION_DROP = (rc, d') \<and> rc \<noteq> FETCH_SUCCESS"
  with assms show "fetch_account_pass x c f a st =
      Inr (Out ((oversize_warned a m d' st)
                  \<lparr>fs_cause := Some ''deleting'', fs_dropped := fs_dropped st + 1\<rparr>))"
    by (simp add: fetch_account_pass_def fetch_account_done_def oversize_warned_def Let_def)
next
  assume "fetch_purge f = None \<or> conf_purge_after c = 0"
  then show "fetch_account_purge c f st' = Again st'"
    by (auto simp: fetch_account_purge_def split: option.splits)
next
  assume "fetch_purge f = Some purge \<and> 0 < conf_purge_after c \<and>
          fs_n st' + 1 < conf_purge_after c"
  then show "fetch_account_purge c f st' = Again (st'\<lparr>fs_n := fs_n st' + 1\<rparr>)"
    by (simp add: fetch_account_purge_def Let_def not_le [symmetric])
next
  assume "fetch_purge f = Some purge \<and> 0 < conf_purge_after c \<and>
          conf_purge_after c \<le> fs_n st' + 1 \<and> purge (fs_data st') = (FETCH_SUCCESS, d'')"
  then show "fetch_account_purge c f st' = Again (st'\<lparr>fs_data := d'', fs_n := 0\<rparr>)"
    by (simp add: fetch_account_purge_def Let_def)
next
  assume "fetch_purge f = Some purge \<and> 0 < conf_purge_after c \<and>
          conf_purge_after c \<le> fs_n st' + 1 \<and> purge (fs_data st') = (rc', d'') \<and>
          rc' \<noteq> FETCH_SUCCESS"
  then show "fetch_account_purge c f st' =
      Out (st'\<lparr>fs_n := fs_n st' + 1, fs_data := d'', fs_cause := Some ''purging''\<rparr>)"
    by (simp add: fetch_account_purge_def Let_def)
next
  assume "fetch_account_pass x c f a st = Inr (Again st')"
  then show "fetch_account_loop (Suc k) x c f a st = fetch_account_loop k x c f a st'"
    by simp
qed

theorem fetch_account_oversize_witness:
  "fetch_fetch ex_fetch (fs_data ex_fetch_state) mail_init =
     (FETCH_OVERSIZE, mail_init\<lparr>mail_size := 5000\<rparr>, 1) \<and>
   conf_del_big (ex_conf []) \<and>
   mail_decision (mail_init\<lparr>mail_size := 5000\<rparr>) = DECISION_DROP \<and>
   fetch_purge ex_fetch = None \<and>
   fetch_account_pass (ex_ext []) (ex_conf []) ex_fetch ex_account ex_fetch_state =
     Inr (Again (ex_fetch_state\<lparr>fs_data := 1, fs_dropped := 1,
                                 fs_warnx := [Warn_too_big ''bob'' 5000]\<rparr>)) \<and>
   fetch_account_loop (Suc 1) (ex_ext []) (ex_conf []) ex_fetch ex_account ex_fetch_state =
     fetch_account_loop 1 (ex_ext []) (ex_conf []) ex_fetch ex_account
       (ex_fetch_state\<lparr>fs_data := 1, fs_dropped := 1,
                        fs_warnx := [Warn_too_big ''bob'' 5000]\<rparr>) \<and>
   fetch_account_pass (ex_ext []) (ex_conf []) (ex_fetch\<lparr>fetch_done := None\<rparr>) ex_account
       ex_fetch_state =
     Inr (Again (ex_fetch_state\<lparr>fs_data := 1, fs_warnx := [Warn_too_big ''bob'' 5000]\<rparr>)) \<and>
   fetch_account_pass (ex_ext []) (ex_conf [])
       (ex_fetch\<lparr>fetch_done := Some (\<lambda>d decision. (FETCH_ERROR, d))\<rparr>) ex_account
       ex_fetch_state =
     Inr (Out (ex_fetch_state\<lparr>fs_data := 1, fs_dropped := 1, fs_cause := Some ''deleting'',
                               fs_warnx := [Warn_too_big ''bob'' 5000]\<rparr>)) \<and>
   fetch_account_pass (ex_ext []) ((ex_conf [])\<lparr>conf_purge_after := 2\<rparr>)
       (ex_fetch\<lparr>fetch_purge := Some (\<lambda>d. (FETCH_SUCCESS, d))\<rparr>) ex_account ex_fetch_state =
     Inr (Again (ex_fetch_state\<lparr>fs_data := 1, fs_dropped := 1, fs_n := 1,
                                 fs_warnx := [Warn_too_big ''bob'' 5000]\<rparr>)) \<and>
   fetch_account_pass (ex_ext []) ((ex_conf [])\<lparr>conf_purge_after := 2\<rparr>)
       (ex_fetch\<lparr>fetch_purge := Some (\<lambda>d. (FETCH_SUCCESS, d))\<rparr>) ex_account
       (ex_fetch_state\<lparr>fs_n := 1\<rparr>) =
     Inr (Again (ex_fetch_state\<lparr>fs_data := 1, fs_dropped := 1, fs_n := 0,
                                 fs_warnx := [Warn_too_big ''bob'' 5000]\<rparr>)) \<and>
   fetch_account_pass (ex_ext []) ((ex_conf [])\<lparr>conf_purge_after := 2\<rparr>)
       (ex_fetch\<lparr>fetch_purge := Some (\<lambda>d. (FETCH_ERROR, d))\<rparr>) ex_account
       (ex_fetch_state\<lparr>fs_n := 1\<rparr>) =
     Inr (Out (ex_fetch_state\<lparr>fs_data := 1, fs_dropped := 1, fs_n := 2,
                               fs_cause := Some ''purging'',
                               fs_warnx := [Warn_too_big ''bob'' 5000]\<rparr>))"
proof -
  let ?x = "ex_ext []" and ?c = "ex_conf []"
  let ?c2 = "(ex_conf [])\<lparr>conf_purge_after := 2\<rparr>"
  let ?m = "mail_init\<lparr>mail_size := 5000\<rparr>"
  let ?dn = "\<lambda>(d::nat) (decision::decision). (FETCH_SUCCESS, d)"
  let ?de = "\<lambda>(d::nat) (decision::decision). (FETCH_ERROR, d)"
  let ?ps = "\<lambda>d::nat. (FETCH_SUCCESS, d)"
  let ?pe = "\<lambda>d::nat. (FETCH_ERROR, d)"
  let ?st = "ex_fetch_state\<lparr>fs_data := 1, fs_dropped := 1,
                             fs_warnx := [Warn_too_big ''bob'' 5000]\<rparr>"
  let ?st1 = "ex_fetch_state\<lparr>fs_n := 1\<rparr>"
  let ?f0 = "ex_fetch\<lparr>fetch_done := None\<rparr>"
  let ?fe = "ex_fetch\<lparr>fetch_done := Some ?de\<rparr>"
  let ?fp = "ex_fetch\<lparr>fetch_purge := Some ?ps\<rparr>"
  let ?fq = "ex_fetch\<lparr>fetch_purge := Some ?pe\<rparr>"
  have h1: "fetch_fetch ex_fetch (fs_data ex_fetch_state) mail_init = (FETCH_OVERSIZE, ?m, 1)"
    and h1': "fetch_fetch ?f0 (fs_data ex_fetch_state) mail_init = (FETCH_OVERSIZE, ?m, 1)"
    and h1'': "fetch_fetch ?fe (fs_data ex_fetch_state) mail_init = (FETCH_OVERSIZE, ?m, 1)"
    and h1p: "fetch_fetch ?fp (fs_data ex_fetch_state) mail_init = (FETCH_OVERSIZE, ?m, 1)"
    and h1p1: "fetch_fetch ?fp (fs_data ?st1) mail_init = (FETCH_OVERSIZE, ?m, 1)"
    and h1q1: "fetch_fetch ?fq (fs_data ?st1) mail_init = (FETCH_OVERSIZE, ?m, 1)"
    by (simp_all add: ex_fetch_def ex_fetch_state_def)
  have h2: "conf_del_big ?c" "conf_del_big ?c2"
    by (simp_all add: ex_conf_def)
  have h3: "mail_decision ?m = DECISION_DROP"
    by (simp add: mail_init_def)
  have h4: "fetch_done ex_fetch = Some ?dn" "fetch_purge ex_fetch = None"
    "fetch_done ?f0 = None" "fetch_purge ?f0 = None" "fetch_done ?fe = Some ?de"
    "fetch_done ?fp = Some ?dn" "fetch_purge ?fp = Some ?ps"
    "fetch_done ?fq = Some ?dn" "fetch_purge ?fq = Some ?pe"
    by (simp_all add: ex_fetch_def)
  have pa: "0 < conf_purge_after ?c2" "conf_purge_after ?c2 = 2"
    by (simp_all add: ex_conf_def)
  have w: "(oversize_warned ex_account ?m 1 ex_fetch_state)
             \<lparr>fs_cause := None, fs_dropped := fs_dropped ex_fetch_state + 1\<rparr> = ?st"
    and w0: "oversize_warned ex_account ?m 1 ex_fetch_state =
               ex_fetch_state\<lparr>fs_data := 1, fs_warnx := [Warn_too_big ''bob'' 5000]\<rparr>"
    and we: "(oversize_warned ex_account ?m 1 ex_fetch_state)
             \<lparr>fs_cause := Some ''deleting'', fs_dropped := fs_dropped ex_fetch_state + 1\<rparr> =
             ex_fetch_state\<lparr>fs_data := 1, fs_dropped := 1, fs_cause := Some ''deleting'',
                              fs_warnx := [Warn_too_big ''bob'' 5000]\<rparr>"
    and w1: "(oversize_warned ex_account ?m 1 ?st1)
             \<lparr>fs_cause := None, fs_dropped := fs_dropped ?st1 + 1\<rparr> = ?st\<lparr>fs_n := 1\<rparr>"
    by (simp_all add: oversize_warned_def ex_fetch_state_def ex_account_def)
  have n: "fs_n ?st = 0" "fs_n (?st\<lparr>fs_n := 1\<rparr>) = 1" "fs_data ?st = 1"
    "fs_data (?st\<lparr>fs_n := 1\<rparr>) = 1"
    by (simp_all add: ex_fetch_state_def)
  note T = fetch_account_oversize [OF h1 h2(1), where dn = ?dn and d' = 1 and x = ?x
      and a = ex_account and rc = FETCH_ERROR and st' = ?st and k = 1 and purge = ?ps
      and d'' = 1 and rc' = FETCH_ERROR]
  note T0 = fetch_account_oversize [OF h1' h2(1), where dn = ?dn and d' = 1 and x = ?x
      and a = ex_account and rc = FETCH_ERROR
      and st' = "oversize_warned ex_account ?m 1 ex_fetch_state" and k = 1 and purge = ?ps
      and d'' = 1 and rc' = FETCH_ERROR]
  note Te = fetch_account_oversize [OF h1'' h2(1), where dn = ?de and d' = 1 and x = ?x
      and a = ex_account and rc = FETCH_ERROR and st' = ?st and k = 1 and purge = ?ps
      and d'' = 1 and rc' = FETCH_ERROR]
  note Tp = fetch_account_oversize [OF h1p h2(2), where dn = ?dn and d' = 1 and x = ?x
      and a = ex_account and rc = FETCH_ERROR and st' = ?st and k = 1 and purge = ?ps
      and d'' = 1 and rc' = FETCH_ERROR]
  note Tp1 = fetch_account_oversize [OF h1p1 h2(2), where dn = ?dn and d' = 1 and x = ?x
      and a = ex_account and rc = FETCH_ERROR and st' = "?st\<lparr>fs_n := 1\<rparr>" and k = 1
      and purge = ?ps and d'' = 1 and rc' = FETCH_ERROR]
  note Tq1 = fetch_account_oversize [OF h1q1 h2(2), where dn = ?dn and d' = 1 and x = ?x
      and a = ex_account and rc = FETCH_ERROR and st' = "?st\<lparr>fs_n := 1\<rparr>" and k = 1
      and purge = ?pe and d'' = 1 and rc' = FETCH_ERROR]
  from T h3 h4(1,2)
  have c1: "fetch_account_pass ?x ?c ex_fetch ex_account ex_fetch_state = Inr (Again ?st)"
    unfolding w by (simp del: fetch_account_loop.simps)
  with T
  have c2: "fetch_account_loop (Suc 1) ?x ?c ex_fetch ex_account ex_fetch_state =
              fetch_account_loop 1 ?x ?c ex_fetch ex_account ?st"
    by blast
  from T0 h4(3,4)
  have c3: "fetch_account_pass ?x ?c ?f0 ex_account ex_fetch_state =
              Inr (Again (ex_fetch_state\<lparr>fs_data := 1,
                                          fs_warnx := [Warn_too_big ''bob'' 5000]\<rparr>))"
    unfolding w0 by (simp del: fetch_account_loop.simps)
  from Te h3 h4(5)
  have c4: "fetch_account_pass ?x ?c ?fe ex_account ex_fetch_state =
              Inr (Out (ex_fetch_state\<lparr>fs_data := 1, fs_dropped := 1,
                          fs_cause := Some ''deleting'',
                          fs_warnx := [Warn_too_big ''bob'' 5000]\<rparr>))"
    unfolding we by (simp del: fetch_account_loop.simps)
  from Tp h3 h4(6,7) pa n
  have c5: "fetch_account_pass ?x ?c2 ?fp ex_account ex_fetch_state =
              Inr (Again (?st\<lparr>fs_n := 1\<rparr>))"
    unfolding w by (simp del: fetch_account_loop.simps)
  from Tp1 h3 h4(6,7) pa n
  have c6: "fetch_account_pass ?x ?c2 ?fp ex_account ?st1 = Inr (Again (?st\<lparr>fs_n := 0\<rparr>))"
    unfolding w1 by (simp del: fetch_account_loop.simps)
  from Tq1 h3 h4(8,9) pa n
  have c7: "fetch_account_pass ?x ?c2 ?fq ex_account ?st1 =
              Inr (Out (?st\<lparr>fs_n := 2, fs_cause := Some ''purging''\<rparr>))"
    unfolding w1 by (simp del: fetch_account_loop.simps)
  have e: "?st\<lparr>fs_n := 1\<rparr> = ex_fetch_state\<lparr>fs_data := 1, fs_dropped := 1, fs_n := 1,
                                 fs_warnx := [Warn_too_big ''bob'' 5000]\<rparr>"
    "?st\<lparr>fs_n := 0\<rparr> = ex_fetch_state\<lparr>fs_data := 1, fs_dropped := 1, fs_n := 0,
                                 fs_warnx := [Warn_too_big ''bob'' 5000]\<rparr>"
    "?st\<lparr>fs_n := 2, fs_cause := Some ''purging''\<rparr> =
       ex_fetch_state\<lparr>fs_data := 1, fs_dropped := 1, fs_n := 2, fs_cause := Some ''purging'',
                        fs_warnx := [Warn_too_big ''bob'' 5000]\<rparr>"
    by (simp_all add: ex_fetch_state_def)
  from h1 h2(1) h3 h4(2) c1 c2 c3 c4 c5 [unfolded e] c6 [unfolded e] c7 [unfolded e]
  show ?thesis by blast
qed

end
